theory Spec2Isabelle
  imports Main "HOL-Library.Char_ord" "HOL-Library.List_Lexorder"
begin

section \<open>Python strings\<close>

text \<open>
  A Python \<open>str\<close> is modelled as a \<open>string\<close>: a list of 8-bit characters, each read as the
  code point of the same number (0 to 255). \<open>length\<close> therefore counts code points and the
  lexicographic order on \<open>string\<close> is Python's order on \<open>str\<close>. The only operation of the
  modelled code that leaves this range is percent-decoding of a query string; decoded keys
  and values are lists of code points (\<open>nat list\<close>), see below.
\<close>

text \<open>The exceptions the modelled code can meet; \<open>Exception\<close> stands for any other one.\<close>

datatype exn = ValueError | UnicodeEncodeError | HTTPError nat | Timeout
  | RequestException string | OSError string | Exception string

definition startswith :: "string \<Rightarrow> string \<Rightarrow> bool" where
  "startswith s p = (take (length p) s = p)"

definition endswith :: "string \<Rightarrow> string \<Rightarrow> bool" where
  "endswith s p = (length p \<le> length s \<and> drop (length s - length p) s = p)"

text \<open>\<open>p in s\<close> for strings.\<close>

fun contains :: "string \<Rightarrow> string \<Rightarrow> bool" where
  "contains [] p = (p = [])"
| "contains (c # cs) p = (startswith (c # cs) p \<or> contains cs p)"

text \<open>\<open>s.rstrip(c)\<close> and \<open>s.lstrip(c)\<close> for a single character \<open>c\<close>.\<close>

definition rstrip :: "char \<Rightarrow> string \<Rightarrow> string" where
  "rstrip c s = rev (dropWhile (\<lambda>x. x = c) (rev s))"

definition lstrip :: "char \<Rightarrow> string \<Rightarrow> string" where
  "lstrip c s = dropWhile (\<lambda>x. x = c) s"

text \<open>
  \<open>s.strip()\<close> removes white space at both ends; below code point 256 the white space of
  Python is 9 to 13, 28 to 32, 133 and 160.
\<close>

definition isspace :: "char \<Rightarrow> bool" where
  "isspace c =
     (let n = (of_char c :: nat)
      in (9 \<le> n \<and> n \<le> 13) \<or> (28 \<le> n \<and> n \<le> 32) \<or> n = 133 \<or> n = 160)"

definition strip :: "string \<Rightarrow> string" where
  "strip s = rev (dropWhile isspace (rev (dropWhile isspace s)))"

text \<open>\<open>s.split(c)\<close>: the fields between the occurrences of \<open>c\<close>; never the empty list.\<close>

fun split :: "char \<Rightarrow> string \<Rightarrow> string list" where
  "split c [] = [[]]"
| "split c (x # xs) =
     (if x = c then [] # split c xs
      else (case split c xs of [] \<Rightarrow> [[x]] | f # fs \<Rightarrow> (x # f) # fs))"

text \<open>\<open>sep.join(xs)\<close>.\<close>

fun join :: "string \<Rightarrow> string list \<Rightarrow> string" where
  "join sep [] = []"
| "join sep [x] = x"
| "join sep (x # y # ys) = x @ sep @ join sep (y # ys)"

text \<open>
  \<open>s.replace(old, new)\<close> for a non-empty \<open>old\<close>: the occurrences are replaced from the left,
  without overlap.
\<close>

function replace :: "string \<Rightarrow> string \<Rightarrow> string \<Rightarrow> string" where
  "replace old new [] = []"
| "replace old new (c # cs) =
     (if old \<noteq> [] \<and> startswith (c # cs) old
      then new @ replace old new (drop (length old) (c # cs))
      else c # replace old new cs)"
  by pat_completeness auto
termination
  by (relation "measure (\<lambda>(old, new, s). length s)") (auto simp: neq_Nil_conv)

text \<open>
  \<open>str.lower()\<close> on code points below 256: the ASCII capitals and the Latin-1 capitals
  (U+00C0 to U+00DE without the multiplication sign U+00D7) move up by 32, which sets bit 5.
\<close>

definition is_upper :: "char \<Rightarrow> bool" where
  "is_upper c =
     (let n = (of_char c :: nat)
      in (65 \<le> n \<and> n \<le> 90) \<or> (192 \<le> n \<and> n \<le> 222 \<and> n \<noteq> 215))"

definition lower_char :: "char \<Rightarrow> char" where
  "lower_char c =
     (if is_upper c
      then (case c of Char b0 b1 b2 b3 b4 b5 b6 b7 \<Rightarrow> Char b0 b1 b2 b3 b4 True b6 b7)
      else c)"

definition lower :: "string \<Rightarrow> string" where
  "lower s = map lower_char s"

section \<open>urllib.parse: splitting and joining URLs\<close>

text \<open>
  The repository calls \<open>urlparse\<close>, \<open>urlunparse\<close>, \<open>parse_qs\<close>, \<open>urlencode\<close> and \<open>urljoin\<close> of
  Python's standard library. They are modelled after \<open>urllib/parse.py\<close> of CPython 3.11.
  A parse result is the tuple the library returns.
\<close>

type_synonym split_result = "string \<times> string \<times> string \<times> string \<times> string"
type_synonym parse_result = "string \<times> string \<times> string \<times> string \<times> string \<times> string"

definition uses_relative :: "string list" where
  "uses_relative = ['''', ''ftp'', ''http'', ''gopher'', ''nntp'', ''imap'',
     ''wais'', ''file'', ''https'', ''shttp'', ''mms'',
     ''prospero'', ''rtsp'', ''rtsps'', ''rtspu'', ''sftp'',
     ''svn'', ''svn+ssh'', ''ws'', ''wss'']"

definition uses_netloc :: "string list" where
  "uses_netloc = ['''', ''ftp'', ''http'', ''gopher'', ''nntp'', ''telnet'',
     ''imap'', ''wais'', ''file'', ''mms'', ''https'', ''shttp'',
     ''snews'', ''prospero'', ''rtsp'', ''rtsps'', ''rtspu'', ''rsync'',
     ''svn'', ''svn+ssh'', ''sftp'', ''nfs'', ''git'', ''git+ssh'',
     ''ws'', ''wss'']"

definition uses_params :: "string list" where
  "uses_params = ['''', ''ftp'', ''hdl'', ''prospero'', ''http'', ''imap'',
     ''https'', ''shttp'', ''rtsp'', ''rtsps'', ''rtspu'', ''sip'',
     ''sips'', ''mms'', ''sftp'', ''tel'']"

definition scheme_chars :: string where
  "scheme_chars = ''abcdefghijklmnopqrstuvwxyzABCDEFGHIJKLMNOPQRSTUVWXYZ0123456789+-.''"

definition ascii_alpha :: "char \<Rightarrow> bool" where
  "ascii_alpha c =
     (let n = (of_char c :: nat) in (65 \<le> n \<and> n \<le> 90) \<or> (97 \<le> n \<and> n \<le> 122))"

text \<open>The characters of \<open>_WHATWG_C0_CONTROL_OR_SPACE\<close> and of \<open>_UNSAFE_URL_BYTES_TO_REMOVE\<close>.\<close>

definition c0_control_or_space :: "char \<Rightarrow> bool" where
  "c0_control_or_space c = ((of_char c :: nat) \<le> 32)"

definition unsafe_url_byte :: "char \<Rightarrow> bool" where
  "unsafe_url_byte c = (c = CHR 0x09 \<or> c = CHR 0x0D \<or> c = CHR 0x0A)"

text \<open>
  The scheme of \<open>urlsplit\<close>: the text before the first colon, when it is not empty, starts
  with an ASCII letter and has only characters of \<open>scheme_chars\<close>.
\<close>

definition split_scheme :: "string \<Rightarrow> string \<times> string" where
  "split_scheme url =
     (let pre = takeWhile (\<lambda>c. c \<noteq> CHR '':'') url
      in if CHR '':'' \<in> set url \<and> pre \<noteq> [] \<and> ascii_alpha (hd url)
            \<and> list_all (\<lambda>c. c \<in> set scheme_chars) pre
         then (lower pre, drop (Suc (length pre)) url)
         else ([], url))"

definition netloc_delim :: "char \<Rightarrow> bool" where
  "netloc_delim c = (c = CHR ''/'' \<or> c = CHR ''?'' \<or> c = CHR ''#'')"

text \<open>\<open>_splitnetloc(url, 2)\<close>, called on a \<open>url\<close> that starts with two slashes.\<close>

definition splitnetloc :: "string \<Rightarrow> string \<times> string" where
  "splitnetloc url =
     (takeWhile (\<lambda>c. \<not> netloc_delim c) (drop 2 url),
      dropWhile (\<lambda>c. \<not> netloc_delim c) (drop 2 url))"

text \<open>\<open>s.partition(c)\<close> as used by \<open>urlsplit\<close>: the text before and after the first \<open>c\<close>.\<close>

definition before :: "char \<Rightarrow> string \<Rightarrow> string" where
  "before c s = takeWhile (\<lambda>x. x \<noteq> c) s"

definition after :: "char \<Rightarrow> string \<Rightarrow> string" where
  "after c s = drop 1 (dropWhile (\<lambda>x. x \<noteq> c) s)"

text \<open>
  \<open>urlsplit(url, scheme)\<close> is \<open>urlsplit2\<close>, where \<open>scheme\<close> is the scheme of a URL that has
  none; \<open>urlsplit(url)\<close> has the scheme \<open>''\<close>. It raises \<open>ValueError\<close> on a network location with unbalanced square
  brackets, and on a bracketed host that \<open>_check_bracketed_host\<close> refuses. That check parses
  an IP address with the \<open>ipaddress\<close> module; it is the parameter \<open>ip_ok\<close> here.
  \<open>_checknetloc\<close> never raises on code points below 256 and is left out.
\<close>

definition urlsplit2 :: "(string \<Rightarrow> bool) \<Rightarrow> string \<Rightarrow> string \<Rightarrow> exn + split_result" where
  "urlsplit2 ip_ok url0 scheme0 =
     (let url1 = dropWhile c0_control_or_space url0;
          scheme1 = rev (dropWhile c0_control_or_space
                      (rev (dropWhile c0_control_or_space scheme0)));
          url2 = filter (\<lambda>c. \<not> unsafe_url_byte c) url1;
          scheme2 = filter (\<lambda>c. \<not> unsafe_url_byte c) scheme1;
          (found, url3) = split_scheme url2;
          scheme = (if found = [] then scheme2 else found);
          (netloc, url4) = (if take 2 url3 = ''//'' then splitnetloc url3 else ([], url3));
          lb = (CHR ''['' \<in> set netloc);
          rb = (CHR '']'' \<in> set netloc)
      in if (lb \<and> \<not> rb) \<or> (rb \<and> \<not> lb) then Inl ValueError
         else if lb \<and> rb \<and> \<not> ip_ok (before CHR '']'' (after CHR ''['' netloc)) then Inl ValueError
         else
           (let (url5, fragment) =
                  (if CHR ''#'' \<in> set url4 then (before CHR ''#'' url4, after CHR ''#'' url4)
                   else (url4, []));
                (url6, query) =
                  (if CHR ''?'' \<in> set url5 then (before CHR ''?'' url5, after CHR ''?'' url5)
                   else (url5, []))
            in Inr (scheme, netloc, url6, query, fragment)))"

definition urlsplit :: "(string \<Rightarrow> bool) \<Rightarrow> string \<Rightarrow> exn + split_result" where
  "urlsplit ip_ok url = urlsplit2 ip_ok url []"

text \<open>\<open>_splitparams\<close>: the parameters follow the first semicolon of the last path segment.\<close>

definition splitparams :: "string \<Rightarrow> string \<times> string" where
  "splitparams url =
     (let seg = rev (takeWhile (\<lambda>c. c \<noteq> CHR ''/'') (rev url));
          dir = take (length url - length seg) url
      in if CHR ''/'' \<in> set url
         then (if CHR '';'' \<in> set (drop (length dir - 1) url)
               then (take (length dir - 1) url @ before CHR '';'' (drop (length dir - 1) url),
                     after CHR '';'' (drop (length dir - 1) url))
               else (url, []))
         else (before CHR '';'' url, after CHR '';'' url))"

definition urlparse2 :: "(string \<Rightarrow> bool) \<Rightarrow> string \<Rightarrow> string \<Rightarrow> exn + parse_result" where
  "urlparse2 ip_ok url scheme0 =
     (case urlsplit2 ip_ok url scheme0 of
        Inl e \<Rightarrow> Inl e
      | Inr (scheme, netloc, p, query, fragment) \<Rightarrow>
          (if scheme \<in> set uses_params \<and> CHR '';'' \<in> set p
           then (let (p', params) = splitparams p
                 in Inr (scheme, netloc, p', params, query, fragment))
           else Inr (scheme, netloc, p, [], query, fragment)))"

definition urlparse :: "(string \<Rightarrow> bool) \<Rightarrow> string \<Rightarrow> exn + parse_result" where
  "urlparse ip_ok url = urlparse2 ip_ok url []"

definition urlunsplit :: "split_result \<Rightarrow> string" where
  "urlunsplit r =
     (case r of (scheme, netloc, url, query, fragment) \<Rightarrow>
        (let url1 = (if netloc \<noteq> [] \<or> (scheme \<noteq> [] \<and> scheme \<in> set uses_netloc)
                        \<or> take 2 url = ''//''
                     then ''//'' @ netloc
                          @ (if url \<noteq> [] \<and> take 1 url \<noteq> ''/'' then ''/'' @ url else url)
                     else url);
             url2 = (if scheme \<noteq> [] then scheme @ '':'' @ url1 else url1);
             url3 = (if query \<noteq> [] then url2 @ ''?'' @ query else url2)
         in if fragment \<noteq> [] then url3 @ ''#'' @ fragment else url3))"

definition urlunparse :: "parse_result \<Rightarrow> string" where
  "urlunparse r =
     (case r of (scheme, netloc, url, params, query, fragment) \<Rightarrow>
        urlunsplit (scheme, netloc,
                    (if params \<noteq> [] then url @ '';'' @ params else url), query, fragment))"

section \<open>urllib.parse: query strings\<close>

text \<open>
  Percent-decoding yields bytes, which Python decodes as UTF-8 with \<open>errors='replace'\<close>.
  Bytes and code points are natural numbers.
\<close>

definition hexdig :: "char \<Rightarrow> bool" where
  "hexdig c = (c \<in> set ''0123456789ABCDEFabcdef'')"

definition hexval :: "char \<Rightarrow> nat" where
  "hexval c =
     (let n = (of_char c :: nat)
      in if n \<le> 57 then n - 48 else if n \<le> 70 then n - 55 else n - 87)"

text \<open>
  \<open>unquote_to_bytes\<close> on an ASCII string: a percent sign followed by two hexadecimal digits
  is the byte they write; any other percent sign stays.
\<close>

fun unquote_to_bytes :: "string \<Rightarrow> nat list" where
  "unquote_to_bytes [] = []"
| "unquote_to_bytes (c # cs) =
     (if c = CHR ''%''
      then (case cs of
              h1 # h2 # rest \<Rightarrow>
                (if hexdig h1 \<and> hexdig h2
                 then (16 * hexval h1 + hexval h2) # unquote_to_bytes rest
                 else 37 # unquote_to_bytes cs)
            | _ \<Rightarrow> 37 # unquote_to_bytes cs)
      else of_char c # unquote_to_bytes cs)"

definition cont :: "nat \<Rightarrow> bool" where
  "cont b = (128 \<le> b \<and> b < 192)"

text \<open>
  \<open>bytes.decode('utf-8', 'replace')\<close>: a well-formed sequence gives its code point; an invalid
  start byte, and the longest prefix of a sequence that an invalid or missing continuation
  byte cuts short, gives U+FFFD, and decoding goes on at the next byte.
\<close>

fun utf8_decode :: "nat list \<Rightarrow> nat list" where
  "utf8_decode [] = []"
| "utf8_decode (b # bs) =
     (if b < 128 then b # utf8_decode bs
      else if b < 194 \<or> 245 \<le> b then 65533 # utf8_decode bs
      else if b < 224 then
        (case bs of
           [] \<Rightarrow> [65533]
         | c # cs \<Rightarrow>
             (if cont c then ((b - 192) * 64 + (c - 128)) # utf8_decode cs
              else 65533 # utf8_decode bs))
      else if b < 240 then
        (case bs of
           [] \<Rightarrow> [65533]
         | c # cs \<Rightarrow>
             (if \<not> cont c \<or> (if c < 160 then b = 224 else b = 237)
              then 65533 # utf8_decode bs
              else (case cs of
                      [] \<Rightarrow> [65533]
                    | d # ds \<Rightarrow>
                        (if cont d
                         then ((b - 224) * 4096 + (c - 128) * 64 + (d - 128)) # utf8_decode ds
                         else 65533 # utf8_decode cs))))
      else
        (case bs of
           [] \<Rightarrow> [65533]
         | c # cs \<Rightarrow>
             (if \<not> cont c \<or> (if c < 144 then b = 240 else b = 244)
              then 65533 # utf8_decode bs
              else (case cs of
                      [] \<Rightarrow> [65533]
                    | d # ds \<Rightarrow>
                        (if \<not> cont d then 65533 # utf8_decode cs
                         else (case ds of
                                 [] \<Rightarrow> [65533]
                               | e # es \<Rightarrow>
                                   (if cont e
                                    then ((b - 240) * 262144 + (c - 128) * 4096
                                          + (d - 128) * 64 + (e - 128)) # utf8_decode es
                                    else 65533 # utf8_decode ds)))))))"

text \<open>The code points of a string.\<close>

definition cps :: "string \<Rightarrow> nat list" where
  "cps s = map of_char s"

definition is_ascii :: "char \<Rightarrow> bool" where
  "is_ascii c = ((of_char c :: nat) < 128)"

text \<open>The maximal runs of elements on which \<open>P\<close> has the same value.\<close>

fun runs :: "('a \<Rightarrow> bool) \<Rightarrow> 'a list \<Rightarrow> 'a list list" where
  "runs P [] = []"
| "runs P (x # xs) =
     (case runs P xs of
        [] \<Rightarrow> [[x]]
      | g # gs \<Rightarrow> (if P x = P (hd g) then (x # g) # gs else [x] # g # gs))"

text \<open>
  \<open>unquote\<close>: a string without a percent sign is returned as it is; otherwise each maximal
  ASCII run is percent-decoded and the other characters stay.
\<close>

definition unquote :: "string \<Rightarrow> nat list" where
  "unquote s =
     (if CHR ''%'' \<notin> set s then cps s
      else concat (map (\<lambda>run. if is_ascii (hd run) then utf8_decode (unquote_to_bytes run)
                                else cps run)
                       (runs is_ascii s)))"

definition unquote_plus :: "string \<Rightarrow> nat list" where
  "unquote_plus s = unquote (map (\<lambda>c. if c = CHR ''+'' then CHR '' '' else c) s)"

text \<open>\<open>parse_qsl(qs, keep_blank_values=True)\<close>, with the separator \<open>&\<close>.\<close>

definition parse_qsl :: "string \<Rightarrow> (nat list \<times> nat list) list" where
  "parse_qsl qs =
     (if qs = [] then []
      else map (\<lambda>name_value. (unquote_plus (before CHR ''='' name_value),
                                unquote_plus (after CHR ''='' name_value)))
               (filter (\<lambda>name_value. name_value \<noteq> []) (split CHR ''&'' qs)))"

text \<open>
  A dictionary whose iteration order matters is an association list in insertion order.
  \<open>parse_qs\<close> appends a value to the list of its key, or inserts the key at the end.
\<close>

fun dict_append :: "('k \<times> 'v list) list \<Rightarrow> 'k \<Rightarrow> 'v \<Rightarrow> ('k \<times> 'v list) list" where
  "dict_append [] k v = [(k, [v])]"
| "dict_append ((k', vs) # d) k v =
     (if k' = k then (k', vs @ [v]) # d else (k', vs) # dict_append d k v)"

definition parse_qs :: "string \<Rightarrow> (nat list \<times> nat list list) list" where
  "parse_qs qs = foldl (\<lambda>d (name, value). dict_append d name value) [] (parse_qsl qs)"

text \<open>\<open>str.encode('utf-8')\<close> of one code point; a surrogate raises \<open>UnicodeEncodeError\<close>.\<close>

definition utf8_encode :: "nat \<Rightarrow> exn + nat list" where
  "utf8_encode c =
     (if c < 128 then Inr [c]
      else if c < 2048 then Inr [192 + c div 64, 128 + c mod 64]
      else if c < 65536 then
        (if 55296 \<le> c \<and> c \<le> 57343 then Inl UnicodeEncodeError
         else Inr [224 + c div 4096, 128 + (c div 64) mod 64, 128 + c mod 64])
      else if c < 1114112 then
        Inr [240 + c div 262144, 128 + (c div 4096) mod 64, 128 + (c div 64) mod 64,
             128 + c mod 64]
      else Inl UnicodeEncodeError)"

definition always_safe :: string where
  "always_safe = ''ABCDEFGHIJKLMNOPQRSTUVWXYZabcdefghijklmnopqrstuvwxyz0123456789_.-~''"

definition hexdigits :: string where
  "hexdigits = ''0123456789ABCDEF''"

text \<open>
  One byte under \<open>quote_plus\<close>: an always-safe byte is its character, a space is a plus sign,
  any other byte is a percent sign and two capital hexadecimal digits.
\<close>

definition quote_byte :: "nat \<Rightarrow> string" where
  "quote_byte b =
     (case find (\<lambda>c. of_char c = b) always_safe of
        Some c \<Rightarrow> [c]
      | None \<Rightarrow> (if b = 32 then ''+''
                 else [CHR ''%'', hexdigits ! (b div 16 mod 16), hexdigits ! (b mod 16)]))"

fun quote_plus :: "nat list \<Rightarrow> exn + string" where
  "quote_plus [] = Inr []"
| "quote_plus (c # cs) =
     (case utf8_encode c of
        Inl e \<Rightarrow> Inl e
      | Inr bs \<Rightarrow>
          (case quote_plus cs of
             Inl e \<Rightarrow> Inl e
           | Inr r \<Rightarrow> Inr (concat (map quote_byte bs) @ r)))"

text \<open>\<open>urlencode(query, doseq=True)\<close> on a dictionary of lists of strings.\<close>

fun encode_values :: "string \<Rightarrow> nat list list \<Rightarrow> exn + string list" where
  "encode_values k [] = Inr []"
| "encode_values k (elt # elts) =
     (case quote_plus elt of
        Inl e \<Rightarrow> Inl e
      | Inr v \<Rightarrow>
          (case encode_values k elts of
             Inl e \<Rightarrow> Inl e
           | Inr l \<Rightarrow> Inr ((k @ ''='' @ v) # l)))"

fun encode_items :: "(nat list \<times> nat list list) list \<Rightarrow> exn + string list" where
  "encode_items [] = Inr []"
| "encode_items ((k, v) # query) =
     (case quote_plus k of
        Inl e \<Rightarrow> Inl e
      | Inr k' \<Rightarrow>
          (case encode_values k' v of
             Inl e \<Rightarrow> Inl e
           | Inr l \<Rightarrow>
               (case encode_items query of
                  Inl e \<Rightarrow> Inl e
                | Inr l' \<Rightarrow> Inr (l @ l'))))"

definition urlencode :: "(nat list \<times> nat list list) list \<Rightarrow> exn + string" where
  "urlencode query =
     (case encode_items query of Inl e \<Rightarrow> Inl e | Inr l \<Rightarrow> Inr (join ''&'' l))"

text \<open>
  \<open>str.lower()\<close> on code points. Below 256 it is \<open>lower_char\<close>. Of the code points from 256
  on, only U+0130 and the Kelvin sign U+212A have an ASCII character in their lower case
  (\<open>i\<close> followed by U+0307, and \<open>k\<close>); every other one maps to non-ASCII text, for which the
  code point itself stands here: the code only compares the result with ASCII names.
\<close>

definition lower_cp :: "nat \<Rightarrow> nat list" where
  "lower_cp c =
     (if (65 \<le> c \<and> c \<le> 90) \<or> (192 \<le> c \<and> c \<le> 222 \<and> c \<noteq> 215) then [c + 32]
      else if c = 304 then [105, 775]
      else if c = 8490 then [107]
      else [c])"

definition lower_cps :: "nat list \<Rightarrow> nat list" where
  "lower_cps s = concat (map lower_cp s)"

section \<open>scraper.py and scraper\_hybrid.py: normalize\_url\<close>

definition tracking_params :: "string list" where
  "tracking_params =
     [''utm_source'', ''utm_medium'', ''utm_campaign'', ''utm_term'', ''utm_content'',
      ''utm_id'', ''utm_cid'', ''utm_reader'', ''utm_referrer'', ''utm_name'',
      ''utm_social'', ''utm_social-type'', ''utm_brand'', ''utm_pubreferrer'',
      ''fbclid'', ''gclid'', ''dclid'', ''msclkid'',
      ''ref'', ''referrer'', ''source'', ''campaign'',
      ''mc_cid'', ''mc_eid'',
      ''yclid'',
      ''_ga'', ''_gid'',
      ''affiliate'', ''affiliateCode'',
      ''amp'', ''amp;'']"

text \<open>
  \<open>normalize_url\<close>, the same function in \<open>scraper.py\<close> and \<open>scraper_hybrid.py\<close>. It raises what
  \<open>urlparse\<close> and \<open>urlencode\<close> raise.
\<close>

definition normalize_url :: "(string \<Rightarrow> bool) \<Rightarrow> string \<Rightarrow> exn + string" where
  "normalize_url ip_ok url =
     (case urlparse ip_ok url of
        Inl e \<Rightarrow> Inl e
      | Inr (scheme, netloc, parsed_path, params, query, fragment) \<Rightarrow>
          (let query_params = parse_qs query;
               filtered_params =
                 filter (\<lambda>(key, value).
                           lower_cps key \<notin> set (map (\<lambda>p. lower_cps (cps p)) tracking_params))
                        query_params
           in case urlencode filtered_params of
                Inl e \<Rightarrow> Inl e
              | Inr new_query \<Rightarrow>
                  (let path = (if parsed_path \<noteq> ''/'' \<and> endswith parsed_path ''/''
                               then rstrip CHR ''/'' parsed_path else parsed_path)
                   in Inr (urlunparse (scheme, netloc, path, params, new_query, [])))))"

section \<open>urllib.parse: urljoin\<close>

text \<open>The loop of \<open>urljoin\<close> over the path segments: \<open>..\<close> pops a segment, \<open>.\<close> is skipped.\<close>

fun resolve_path :: "string list \<Rightarrow> string list \<Rightarrow> string list" where
  "resolve_path resolved_path [] = resolved_path"
| "resolve_path resolved_path (seg # segments) =
     (if seg = ''..'' then resolve_path (butlast resolved_path) segments
      else if seg = ''.'' then resolve_path resolved_path segments
      else resolve_path (resolved_path @ [seg]) segments)"

text \<open>\<open>segments[1:-1] = filter(None, segments[1:-1])\<close>.\<close>

definition filter_middle :: "string list \<Rightarrow> string list" where
  "filter_middle segments =
     (if length segments < 2 then segments
      else hd segments # filter (\<lambda>s. s \<noteq> []) (butlast (tl segments)) @ [last segments])"

definition urljoin :: "(string \<Rightarrow> bool) \<Rightarrow> string \<Rightarrow> string \<Rightarrow> exn + string" where
  "urljoin ip_ok base url =
     (if base = [] then Inr url
      else if url = [] then Inr base
      else
        (case urlparse2 ip_ok base [] of
           Inl e \<Rightarrow> Inl e
         | Inr (bscheme, bnetloc, bpath, bparams, bquery, bfragment) \<Rightarrow>
             (case urlparse2 ip_ok url bscheme of
                Inl e \<Rightarrow> Inl e
              | Inr (scheme, netloc, path, params, query, fragment) \<Rightarrow>
                  (if scheme \<noteq> bscheme \<or> scheme \<notin> set uses_relative then Inr url
                   else if scheme \<in> set uses_netloc \<and> netloc \<noteq> []
                   then Inr (urlunparse (scheme, netloc, path, params, query, fragment))
                   else
                     (let netloc' = (if scheme \<in> set uses_netloc then bnetloc else netloc)
                      in if path = [] \<and> params = []
                         then Inr (urlunparse (scheme, netloc', bpath, bparams,
                                     (if query = [] then bquery else query), fragment))
                         else
                           (let parts = split CHR ''/'' bpath;
                                base_parts = (if last parts \<noteq> [] then butlast parts else parts);
                                segments =
                                  (if take 1 path = ''/'' then split CHR ''/'' path
                                   else filter_middle (base_parts @ split CHR ''/'' path));
                                resolved = resolve_path [] segments;
                                resolved_path =
                                  (if last segments = ''.'' \<or> last segments = ''..''
                                   then resolved @ [[]] else resolved);
                                joined = join ''/'' resolved_path
                            in Inr (urlunparse (scheme, netloc',
                                      (if joined = [] then ''/'' else joined),
                                      params, query, fragment))))))))"

section \<open>The world outside the code\<close>

text \<open>
  The network, the HTML parser, the regular-expression scans over raw HTML and the headless
  browser are not code of the repository. They are the fields of a \<open>world\<close>:
  \<^item> \<open>bracketed_host_ok\<close>: the IP-address check of \<open>urlsplit\<close>;
  \<^item> \<open>requests_get\<close>: \<open>requests.get(url, ...)\<close>, an exception or a response;
  \<^item> \<open>find_all_a_href\<close>: the \<open>href\<close> values of \<open>soup.find_all('a', href=True)\<close> for a text;
  \<^item> \<open>href_matches\<close>: for a text, \<open>html.unescape(match.group(1))\<close> for the matches of the
    two \<open>href\<close> patterns of \<open>extract_links_from_html\<close>, in the order of its two loops;
  \<^item> \<open>nextjs_data\<close> and \<open>dynamic_links\<close>: what \<open>extract_nextjs_data(url)\<close> and
    \<open>extract_dynamic_links(url)\<close> return;
  \<^item> \<open>network_links\<close>: for \<open>extract_links_from_network\<close>, an exception of the browser
    session or the set \<open>links\<close> that the page's anchors and the intercepted responses fill.
\<close>

record response =
  status_code :: nat
  content :: string
  content_type :: string

text \<open>
  The dictionary a strategy returns. \<open>error\<close> is the exception whose text the code stores.
\<close>

record extraction_result =
  success :: bool
  links :: "string list"
  count :: nat
  error :: "exn option"

record world =
  bracketed_host_ok :: "string \<Rightarrow> bool"
  requests_get :: "string \<Rightarrow> exn + response"
  find_all_a_href :: "string \<Rightarrow> string list"
  href_matches :: "string \<Rightarrow> string list"
  nextjs_data :: "string \<Rightarrow> extraction_result"
  dynamic_links :: "string \<Rightarrow> extraction_result"
  network_links :: "string \<Rightarrow> exn + string list"

text \<open>The result of every \<open>except\<close> branch: no links.\<close>

definition failure :: "exn \<Rightarrow> extraction_result" where
  "failure e = \<lparr>success = False, links = [], count = 0, error = Some e\<rparr>"

text \<open>\<open>response.raise_for_status()\<close> raises on a status from 400 to 599.\<close>

definition raise_for_status :: "response \<Rightarrow> exn + response" where
  "raise_for_status r =
     (if 400 \<le> status_code r \<and> status_code r < 600 then Inl (HTTPError (status_code r))
      else Inr r)"

text \<open>\<open>any(pattern in s for pattern in patterns)\<close>.\<close>

definition any_in :: "string list \<Rightarrow> string \<Rightarrow> bool" where
  "any_in patterns s = list_ex (\<lambda>pattern. contains s pattern) patterns"

section \<open>scraper\_hybrid.py: extract\_static\_links\<close>

definition static_unwanted :: "string list" where
  "static_unwanted = [''cdn'', ''.png'', ''.jpg'', ''.jpeg'', ''.gif'', ''.svg'', ''.webp'',
     ''assets'', ''static'', ''.js'', ''.css'']"

text \<open>
  The loop over the anchors. It returns the links added to the set \<open>links\<close>, in the order
  of the additions; an exception of \<open>urljoin\<close>, \<open>urlparse\<close> or \<open>normalize_url\<close> ends it.
\<close>

fun static_anchors :: "(string \<Rightarrow> bool) \<Rightarrow> string \<Rightarrow> string \<Rightarrow> string list \<Rightarrow> exn + string list"
  where
  "static_anchors ip_ok url base_domain [] = Inr []"
| "static_anchors ip_ok url base_domain (href # hrefs) =
     (if startswith href ''#'' \<or> startswith href ''javascript:'' \<or> startswith href ''mailto:''
      then static_anchors ip_ok url base_domain hrefs
      else
        (case urljoin ip_ok url href of
           Inl e \<Rightarrow> Inl e
         | Inr absolute_url \<Rightarrow>
             (case urlparse ip_ok absolute_url of
                Inl e \<Rightarrow> Inl e
              | Inr (scheme, netloc, rest) \<Rightarrow>
                  (let link_domain = replace ''www.'' [] (lower netloc)
                   in if link_domain = base_domain
                         \<and> \<not> any_in static_unwanted (lower absolute_url)
                      then
                        (case normalize_url ip_ok absolute_url of
                           Inl e \<Rightarrow> Inl e
                         | Inr normalized \<Rightarrow>
                             (case static_anchors ip_ok url base_domain hrefs of
                                Inl e \<Rightarrow> Inl e
                              | Inr added \<Rightarrow> Inr (normalized # added)))
                      else static_anchors ip_ok url base_domain hrefs))))"

definition extract_static_links :: "world \<Rightarrow> string \<Rightarrow> extraction_result" where
  "extract_static_links w url =
     (case urlparse (bracketed_host_ok w) url of
        Inl e \<Rightarrow> failure e
      | Inr (scheme, netloc, rest) \<Rightarrow>
          (let base_domain = replace ''www.'' [] (lower netloc)
           in case requests_get w url of
                Inl e \<Rightarrow> failure e
              | Inr r \<Rightarrow>
                  (case raise_for_status r of
                     Inl e \<Rightarrow> failure e
                   | Inr response \<Rightarrow>
                       (case static_anchors (bracketed_host_ok w) url base_domain
                               (find_all_a_href w (content response)) of
                          Inl e \<Rightarrow> failure e
                        | Inr added \<Rightarrow>
                            \<lparr>success = True,
                             links = sorted_list_of_set (set added),
                             count = card (set added),
                             error = None\<rparr>))))"

section \<open>scraper.py: extract\_links\_from\_html and scrape\_url\<close>

definition html_unwanted :: "string list" where
  "html_unwanted = [''cdn'', ''.png'', ''.jpg'', ''.jpeg'', ''.gif'', ''.svg'', ''.webp'',
     ''assets'', ''static'', ''.js'', ''.css'', ''('', '')'', ''{'', ''}'', ''['', '']'']"

text \<open>
  The body of the two loops of \<open>extract_links_from_html\<close>, over the matched and unescaped
  \<open>href\<close> values. \<open>urljoin\<close> is outside the \<open>try\<close>, so its exception leaves the function; an
  exception of \<open>urlparse\<close> or \<open>normalize_url\<close> skips the link.
\<close>

fun html_matches :: "(string \<Rightarrow> bool) \<Rightarrow> string \<Rightarrow> string \<Rightarrow> string list \<Rightarrow> exn + string list"
  where
  "html_matches ip_ok base_url base_domain_clean [] = Inr []"
| "html_matches ip_ok base_url base_domain_clean (url # urls) =
     (if url = [] \<or> startswith url ''#'' \<or> startswith url ''javascript:''
         \<or> startswith url ''mailto:''
      then html_matches ip_ok base_url base_domain_clean urls
      else if CHR ''#'' \<in> set url then html_matches ip_ok base_url base_domain_clean urls
      else
        (case urljoin ip_ok base_url url of
           Inl e \<Rightarrow> Inl e
         | Inr absolute_url \<Rightarrow>
             (if any_in html_unwanted (lower absolute_url)
              then html_matches ip_ok base_url base_domain_clean urls
              else
                (case html_matches ip_ok base_url base_domain_clean urls of
                   Inl e \<Rightarrow> Inl e
                 | Inr added \<Rightarrow>
                     (case urlparse ip_ok absolute_url of
                        Inl e \<Rightarrow> Inr added
                      | Inr (scheme, netloc, rest) \<Rightarrow>
                          (if (scheme = ''http'' \<or> scheme = ''https'')
                              \<and> replace ''www.'' [] (lower netloc) = base_domain_clean
                           then
                             (case normalize_url ip_ok (before CHR 0x22 absolute_url) of
                                Inl e \<Rightarrow> Inr added
                              | Inr normalized_url \<Rightarrow> Inr (normalized_url # added))
                           else Inr added))))))"

definition extract_links_from_html ::
  "world \<Rightarrow> string \<Rightarrow> string \<Rightarrow> exn + string list" where
  "extract_links_from_html w html_content base_url =
     (case urlparse (bracketed_host_ok w) base_url of
        Inl e \<Rightarrow> Inl e
      | Inr (scheme, netloc, rest) \<Rightarrow>
          (let base_domain = lower netloc;
               base_domain_clean = replace ''www.'' [] base_domain
           in case html_matches (bracketed_host_ok w) base_url base_domain_clean
                     (href_matches w html_content) of
                Inl e \<Rightarrow> Inl e
              | Inr added \<Rightarrow> Inr (sorted_list_of_set (set added))))"

definition scrape_url :: "world \<Rightarrow> string \<Rightarrow> extraction_result" where
  "scrape_url w url =
     (case urlparse (bracketed_host_ok w) url of
        Inl e \<Rightarrow> failure e
      | Inr (scheme, netloc, rest) \<Rightarrow>
          (if scheme = [] \<or> netloc = []
           then \<lparr>success = False, links = [], count = 0,
                 error = Some (Exception ''Invalid URL format'')\<rparr>
           else
             (case requests_get w url of
                Inl e \<Rightarrow> failure e
              | Inr r \<Rightarrow>
                  (case raise_for_status r of
                     Inl e \<Rightarrow> failure e
                   | Inr response \<Rightarrow>
                       (case extract_links_from_html w (content response) url of
                          Inl e \<Rightarrow> failure e
                        | Inr found \<Rightarrow>
                            \<lparr>success = True, links = found, count = length found,
                             error = None\<rparr>)))))"

section \<open>scraper\_hybrid.py: extract\_links\_hybrid\<close>

text \<open>
  The aggregator returns its dictionary; the model returns with it the strategies it has
  called, in order. \<open>errors\<close> pairs the name of a failed strategy with its \<open>error\<close>.
\<close>

record hybrid_result = extraction_result +
  methods_used :: "string list"
  errors :: "(string \<times> exn option) list option"

definition extract_links_hybrid :: "world \<Rightarrow> string \<Rightarrow> hybrid_result \<times> string list" where
  "extract_links_hybrid w url =
     (let static_result = extract_static_links w url;
          static_ok = (success static_result \<and> count static_result > 0);
          all_links1 = (if static_ok then set (links static_result) else {});
          methods1 = (if static_ok then [''static''] else []);
          errors1 = (if \<not> static_ok \<and> \<not> success static_result
                     then [(''Static'', error static_result)] else []);
          nextjs_result = nextjs_data w url;
          nextjs_ok = (success nextjs_result \<and> count nextjs_result > 0);
          all_links2 = (if nextjs_ok then all_links1 \<union> set (links nextjs_result)
                        else all_links1);
          methods2 = (if nextjs_ok then methods1 @ [''nextjs''] else methods1);
          errors2 = (if \<not> nextjs_ok \<and> \<not> success nextjs_result
                     then errors1 @ [(''Next.js'', error nextjs_result)] else errors1);
          run_dynamic = (card all_links2 < 5);
          dynamic_result = dynamic_links w url;
          dynamic_ok = (success dynamic_result \<and> count dynamic_result > 0);
          all_links = (if run_dynamic \<and> dynamic_ok
                       then all_links2 \<union> set (links dynamic_result) else all_links2);
          methods3 = (if run_dynamic \<and> dynamic_ok then methods2 @ [''dynamic''] else methods2);
          errors3 = (if run_dynamic \<and> \<not> dynamic_ok \<and> \<not> success dynamic_result
                     then errors2 @ [(''Dynamic'', error dynamic_result)] else errors2)
      in (\<lparr>success = card all_links > 0,
           links = sorted_list_of_set all_links,
           count = card all_links,
           error = None,
           methods_used = methods3,
           errors = (if errors3 = [] then None else Some errors3)\<rparr>,
          [''extract_static_links'', ''extract_nextjs_data'']
          @ (if run_dynamic then [''extract_dynamic_links''] else [])))"

section \<open>scraper\_network.py: extract\_links\_from\_network\<close>

definition network_unwanted :: "string list" where
  "network_unwanted = [''.js'', ''.css'', ''.png'', ''.jpg'', ''.jpeg'', ''.gif'', ''.svg'',
     ''.webp'', ''assets'', ''static'', ''cdn'']"

text \<open>The last loop, which filters the set \<open>links\<close>; \<open>urlparse\<close> may raise in it.\<close>

fun network_filter :: "(string \<Rightarrow> bool) \<Rightarrow> string \<Rightarrow> string \<Rightarrow> string list \<Rightarrow> exn + string list"
  where
  "network_filter ip_ok base_url base_domain [] = Inr []"
| "network_filter ip_ok base_url base_domain (link # rest) =
     (if \<not> any_in network_unwanted (lower link)
         \<and> contains link ''/blog/'' \<and> link \<noteq> base_url @ ''/blog''
      then
        (case urlparse ip_ok link of
           Inl e \<Rightarrow> Inl e
         | Inr (scheme, netloc, other) \<Rightarrow>
             (let link_domain = replace ''www.'' [] (lower netloc)
              in case network_filter ip_ok base_url base_domain rest of
                   Inl e \<Rightarrow> Inl e
                 | Inr filtered \<Rightarrow>
                     (if link_domain = [] \<or> link_domain = base_domain
                      then Inr (link # filtered) else Inr filtered)))
      else network_filter ip_ok base_url base_domain rest)"

definition extract_links_from_network :: "world \<Rightarrow> string \<Rightarrow> extraction_result" where
  "extract_links_from_network w url =
     (case urlparse (bracketed_host_ok w) url of
        Inl e \<Rightarrow> failure e
      | Inr (scheme, netloc, rest) \<Rightarrow>
          (let base_domain = replace ''www.'' [] (lower netloc);
               base_url = scheme @ ''://'' @ netloc
           in case network_links w url of
                Inl e \<Rightarrow> failure e
              | Inr found \<Rightarrow>
                  (case network_filter (bracketed_host_ok w) base_url base_domain found of
                     Inl e \<Rightarrow> failure e
                   | Inr filtered \<Rightarrow>
                       \<lparr>success = True,
                        links = sorted_list_of_set (set filtered),
                        count = card (set filtered),
                        error = None\<rparr>)))"

text \<open>The shape every strategy's result should have at the public interface.\<close>

definition well_shaped :: "'a extraction_result_scheme \<Rightarrow> bool" where
  "well_shaped r = (count r = length (links r) \<and> distinct (links r) \<and> sorted (links r))"

section \<open>advanced\_scraper.py: the crawl frontier\<close>

text \<open>
  What \<open>BeautifulSoup(html_content, 'html.parser')\<close> gives to \<open>extract_all_links\<close>: the
  \<open>href\<close> values of the \<open>a\<close> and \<open>link\<close> tags, the \<open>src\<close> values of the \<open>script\<close> and \<open>img\<close>
  tags, and the \<open>style\<close> attributes, each in document order.
\<close>

record soup =
  a_href :: "string list"
  link_href :: "string list"
  script_src :: "string list"
  img_src :: "string list"
  style_attrs :: "string list"

text \<open>
  The world of one crawl:
  \<^item> \<open>ip_address_ok\<close>: the IP-address check of \<open>urlsplit\<close>;
  \<open>session_get n url\<close>: the outcome of the request with number \<open>n\<close> of the session, for
    \<open>url\<close>: an exception (network error, timeout) or a response;
  \<^item> \<open>parse_html\<close>: the HTML parser;
  \<^item> \<open>save_file\<close>: creating the directory and writing the file of a relative path, which
    may raise;
  \<^item> \<open>iteration_rank d\<close>: the order in which Python iterates over the set
    \<open>discovered_urls\<close> at depth \<open>d\<close> (smaller rank first), which the language leaves open;
  \<^item> \<open>completion_rank d\<close>: the order in which the responses of the batch of depth \<open>d\<close>
    arrive.
\<close>

record crawl_world =
  ip_address_ok :: "string \<Rightarrow> bool"
  session_get :: "nat \<Rightarrow> string \<Rightarrow> exn + response"
  parse_html :: "string \<Rightarrow> soup"
  save_file :: "string \<Rightarrow> exn option"
  iteration_rank :: "nat \<Rightarrow> string \<Rightarrow> nat"
  completion_rank :: "nat \<Rightarrow> string \<Rightarrow> nat"

text \<open>One entry of \<open>downloaded_files\<close>.\<close>

record file_info =
  file_url :: string
  filename :: string
  file_type :: string
  size :: nat
  file_content_type :: string
  depth :: int
  links_extracted :: "nat option"
  link_extraction_error :: "exn option"

text \<open>
  The dictionary \<open>download_single_file\<close> returns: skipped, \<open>HTTP\<close> status other than 200, an
  exception caught (with the depth), or the entry of the downloaded file.
\<close>

datatype download_result =
  Skipped string
  | Http_error string nat
  | Error_result string exn int
  | Downloaded file_info

text \<open>
  The scraper object. \<open>visited_urls\<close> is a set. \<open>discovered_urls\<close> is a set too; it is kept
  as the list of its elements in the order they were added, and \<open>iteration_rank\<close> decides the
  order of iteration. \<open>fetched\<close> is not a field of the class: it records each call of
  \<open>session.get\<close>, with the URL and the depth, in order.
\<close>

record scraper =
  base_url :: string
  parsed_base_netloc :: string
  max_depth :: int
  visited_urls :: "string set"
  discovered_urls :: "string list"
  downloaded_files :: "file_info list"
  fetched :: "(string \<times> int) list"

text \<open>\<open>__init__\<close>; \<open>urlparse\<close> of an invalid seed URL raises.\<close>

definition init_scraper :: "crawl_world \<Rightarrow> string \<Rightarrow> int \<Rightarrow> exn + scraper" where
  "init_scraper w url depth_limit =
     (case urlparse (ip_address_ok w) (rstrip CHR ''/'' url) of
        Inl e \<Rightarrow> Inl e
      | Inr (scheme, netloc, rest) \<Rightarrow>
          Inr \<lparr>base_url = rstrip CHR ''/'' url,
               parsed_base_netloc = netloc,
               max_depth = depth_limit,
               visited_urls = {},
               discovered_urls = [],
               downloaded_files = [],
               fetched = []\<rparr>)"

definition is_same_domain :: "crawl_world \<Rightarrow> scraper \<Rightarrow> string \<Rightarrow> bool" where
  "is_same_domain w s url =
     (case urlparse (ip_address_ok w) url of
        Inl e \<Rightarrow> False
      | Inr (scheme, netloc, rest) \<Rightarrow> netloc = parsed_base_netloc s)"

definition clean_url :: "crawl_world \<Rightarrow> string \<Rightarrow> exn + string" where
  "clean_url w url =
     (case urlparse (ip_address_ok w) url of
        Inl e \<Rightarrow> Inl e
      | Inr (scheme, netloc, path, params, query, fragment) \<Rightarrow>
          Inr (urlunparse (scheme, netloc, path, params, query, [])))"

text \<open>\<open>os.path.basename\<close>: the text after the last slash.\<close>

definition basename :: "string \<Rightarrow> string" where
  "basename p = rev (takeWhile (\<lambda>c. c \<noteq> CHR ''/'') (rev p))"

definition image_extensions :: "string list" where
  "image_extensions = [''.png'', ''.jpg'', ''.jpeg'', ''.gif'', ''.svg'', ''.ico'', ''.webp'']"

definition get_file_type_and_path :: "crawl_world \<Rightarrow> string \<Rightarrow> exn + string \<times> string" where
  "get_file_type_and_path w url =
     (case urlparse (ip_address_ok w) url of
        Inl e \<Rightarrow> Inl e
      | Inr (scheme, netloc, parsed_path, rest) \<Rightarrow>
          (let path = rstrip CHR ''/'' (lstrip CHR ''/'' parsed_path)
           in if path = [] \<or> endswith path ''/'' then Inr (''html'', ''index.html'')
              else if endswith path ''.css'' then Inr (''css'', ''css/'' @ basename path)
              else if endswith path ''.js'' then Inr (''js'', ''js/'' @ basename path)
              else if list_ex (\<lambda>ext. endswith path ext) image_extensions
              then Inr (''image'', ''images/'' @ basename path)
              else if CHR ''.'' \<notin> set (basename path)
              then Inr (''html'', replace ''/'' ''_'' path @ ''.html'')
              else Inr (''other'', replace ''/'' ''_'' path)))"

text \<open>
  The matches of \<open>url\(["\']?([^"\']+)["\']?\)\<close> at a \<open>url(\<close>: \<open>css_url_at\<close> takes the text
  after \<open>url(\<close> and gives the group and the number of characters the match takes there.
  The group is the longest run without a quote character when a quote and \<open>)\<close> follow it, and
  else the part of that run before its last \<open>)\<close> that leaves the group not empty.
\<close>

definition quote_char :: "char \<Rightarrow> bool" where
  "quote_char c = (c = CHR 0x22 \<or> c = CHR 0x27)"

definition css_url_at :: "string \<Rightarrow> (string \<times> nat) option" where
  "css_url_at s =
     (let q = (if s \<noteq> [] \<and> quote_char (hd s) then 1 else 0);
          run = takeWhile (\<lambda>c. \<not> quote_char c) (drop q s);
          rest = drop (q + length run) s
      in if run = [] then None
         else if take 1 rest \<noteq> [] \<and> take 1 (drop 1 rest) = '')''
         then Some (run, q + length run + 2)
         else (case filter (\<lambda>k. run ! k = CHR '')'') (rev [1..<length run]) of
                 [] \<Rightarrow> None
               | k # ks \<Rightarrow> Some (take k run, q + k + 1)))"

text \<open>\<open>re.findall\<close> of that pattern: the groups of the matches, from the left, no overlap.\<close>

fun css_urls :: "nat \<Rightarrow> string \<Rightarrow> string list" where
  "css_urls skip [] = []"
| "css_urls (Suc skip) (c # cs) = css_urls skip cs"
| "css_urls 0 (c # cs) =
     (if startswith (c # cs) ''url(''
      then (case css_url_at (drop 3 cs) of
              Some (g, n) \<Rightarrow> g # css_urls (3 + n) cs
            | None \<Rightarrow> css_urls 0 cs)
      else css_urls 0 cs)"

text \<open>The references \<open>extract_all_links\<close> resolves, in the order of its five loops.\<close>

definition link_candidates :: "soup \<Rightarrow> string list" where
  "link_candidates doc =
     filter (\<lambda>href. href \<noteq> [] \<and> \<not> startswith href ''#'' \<and> \<not> startswith href ''mailto:''
                      \<and> \<not> startswith href ''tel:'')
            (map strip (a_href doc))
     @ filter (\<lambda>href. href \<noteq> []) (map strip (link_href doc))
     @ filter (\<lambda>src. src \<noteq> []) (map strip (script_src doc))
     @ filter (\<lambda>src. src \<noteq> []) (map strip (img_src doc))
     @ map strip (concat (map (css_urls 0) (style_attrs doc)))"

fun resolve_all :: "crawl_world \<Rightarrow> string \<Rightarrow> string list \<Rightarrow> exn + string list" where
  "resolve_all w page_url [] = Inr []"
| "resolve_all w page_url (href # hrefs) =
     (case urljoin (ip_address_ok w) page_url href of
        Inl e \<Rightarrow> Inl e
      | Inr absolute_url \<Rightarrow>
          (case clean_url w absolute_url of
             Inl e \<Rightarrow> Inl e
           | Inr cleaned \<Rightarrow>
               (case resolve_all w page_url hrefs of
                  Inl e \<Rightarrow> Inl e
                | Inr others \<Rightarrow> Inr (cleaned # others))))"

text \<open>\<open>extract_all_links\<close> returns \<open>list(links)\<close> of a set: a list without duplicates.\<close>

definition extract_all_links :: "crawl_world \<Rightarrow> string \<Rightarrow> string \<Rightarrow> exn + string list" where
  "extract_all_links w html_content page_url =
     (case resolve_all w page_url (link_candidates (parse_html w html_content)) of
        Inl e \<Rightarrow> Inl e
      | Inr found \<Rightarrow> Inr (remdups found))"

definition skip_patterns :: "string list" where
  "skip_patterns = [''/_next/static/chunks/webpack'', ''/_next/static/chunks/polyfills'',
     ''.map'', ''.xml'', ''.txt'']"

definition should_download :: "crawl_world \<Rightarrow> scraper \<Rightarrow> string \<Rightarrow> exn + bool" where
  "should_download w s url =
     (if \<not> is_same_domain w s url then Inr False
      else if url \<in> visited_urls s then Inr False
      else (case urlparse (ip_address_ok w) url of
              Inl e \<Rightarrow> Inl e
            | Inr (scheme, netloc, path, rest) \<Rightarrow>
                Inr (\<not> any_in skip_patterns (lower path))))"

definition is_html_content :: "crawl_world \<Rightarrow> string \<Rightarrow> string \<Rightarrow> exn + bool" where
  "is_html_content w url ctype =
     (if contains (lower ctype) ''html'' then Inr True
      else (case urlparse (ip_address_ok w) url of
              Inl e \<Rightarrow> Inl e
            | Inr (scheme, netloc, path, rest) \<Rightarrow>
                Inr (CHR ''.'' \<notin> set (basename path) \<or> endswith path ''/'')))"

text \<open>
  \<open>download_single_file\<close> runs up to its first \<open>await\<close> without giving up control: the test
  of \<open>should_download\<close> and of the depth, the addition to \<open>visited_urls\<close>, and the call of
  \<open>session.get\<close>. \<open>begin_download\<close> is that part; it says whether the request was made.
\<close>

definition begin_download ::
  "crawl_world \<Rightarrow> scraper \<Rightarrow> string \<Rightarrow> int \<Rightarrow> exn + scraper \<times> bool" where
  "begin_download w s url d =
     (case should_download w s url of
        Inl e \<Rightarrow> Inl e
      | Inr ok \<Rightarrow>
          (if \<not> ok \<or> d > max_depth s then Inr (s, False)
           else Inr (s\<lparr>visited_urls := insert url (visited_urls s),
                       fetched := fetched s @ [(url, d)]\<rparr>, True)))"

text \<open>
  \<open>finish_download\<close> is the rest, for the request with number \<open>n\<close>: everything in the \<open>try\<close>,
  whose \<open>except Exception\<close> turns an exception into a dictionary. The changes of
  \<open>discovered_urls\<close> and \<open>downloaded_files\<close> come after the last \<open>await\<close>, in one piece.
\<close>

definition finish_download ::
  "crawl_world \<Rightarrow> scraper \<Rightarrow> string \<Rightarrow> int \<Rightarrow> nat \<Rightarrow> scraper \<times> download_result" where
  "finish_download w s url d n =
     (case session_get w n url of
        Inl e \<Rightarrow> (s, Error_result url e d)
      | Inr r \<Rightarrow>
          (if status_code r \<noteq> 200 then (s, Http_error url (status_code r))
           else
             (case get_file_type_and_path w url of
                Inl e \<Rightarrow> (s, Error_result url e d)
              | Inr (ftype, relative_path) \<Rightarrow>
                  (case save_file w relative_path of
                     Some e \<Rightarrow> (s, Error_result url e d)
                   | None \<Rightarrow>
                       (let result = \<lparr>file_url = url, filename = relative_path,
                                       file_type = ftype, size = length (content r),
                                       file_content_type = lower (content_type r),
                                       depth = d, links_extracted = None,
                                       link_extraction_error = None\<rparr>
                        in case is_html_content w url (lower (content_type r)) of
                             Inl e \<Rightarrow> (s, Error_result url e d)
                           | Inr html \<Rightarrow>
                               (if html \<and> d < max_depth s
                                then
                                  (case extract_all_links w (content r) url of
                                     Inl e \<Rightarrow>
                                       (let result' = result\<lparr>link_extraction_error := Some e\<rparr>
                                        in (s\<lparr>downloaded_files :=
                                                 downloaded_files s @ [result']\<rparr>,
                                            Downloaded result'))
                                   | Inr extracted_links \<Rightarrow>
                                       (let new_links =
                                              filter (\<lambda>link. link \<notin> visited_urls s
                                                        \<and> link \<notin> set (discovered_urls s))
                                                     extracted_links;
                                            result' = result\<lparr>links_extracted :=
                                                               Some (length new_links)\<rparr>
                                        in (s\<lparr>discovered_urls :=
                                                 discovered_urls s @ new_links,
                                               downloaded_files :=
                                                 downloaded_files s @ [result']\<rparr>,
                                            Downloaded result')))
                                else (s\<lparr>downloaded_files := downloaded_files s @ [result]\<rparr>,
                                      Downloaded result)))))))"

text \<open>A call of \<open>download_single_file\<close> on its own. \<open>Inl\<close> is an exception that leaves it.\<close>

definition download_single_file ::
  "crawl_world \<Rightarrow> scraper \<Rightarrow> string \<Rightarrow> int \<Rightarrow> exn + scraper \<times> download_result" where
  "download_single_file w s url d =
     (case begin_download w s url d of
        Inl e \<Rightarrow> Inl e
      | Inr (s', started) \<Rightarrow>
          (if started then Inr (finish_download w s' url d (length (fetched s)))
           else Inr (s', Skipped url)))"

text \<open>
  \<open>asyncio.gather\<close> over the batch of one depth: every task runs to its request, in the
  order of the batch; then the responses are handled in the order they arrive.
\<close>

fun begin_all ::
  "crawl_world \<Rightarrow> scraper \<Rightarrow> string list \<Rightarrow> int \<Rightarrow> exn + scraper \<times> (string \<times> nat) list" where
  "begin_all w s [] d = Inr (s, [])"
| "begin_all w s (url # urls) d =
     (case begin_download w s url d of
        Inl e \<Rightarrow> Inl e
      | Inr (s', started) \<Rightarrow>
          (case begin_all w s' urls d of
             Inl e \<Rightarrow> Inl e
           | Inr (s'', tasks) \<Rightarrow>
               Inr (s'', (if started then [(url, length (fetched s))] else []) @ tasks)))"

fun finish_all :: "crawl_world \<Rightarrow> scraper \<Rightarrow> (string \<times> nat) list \<Rightarrow> int \<Rightarrow> scraper" where
  "finish_all w s [] d = s"
| "finish_all w s ((url, n) # tasks) d = finish_all w (fst (finish_download w s url d n)) tasks d"

text \<open>\<open>[url for url in self.discovered_urls if url not in self.visited_urls]\<close>.\<close>

definition urls_at_depth :: "crawl_world \<Rightarrow> scraper \<Rightarrow> nat \<Rightarrow> string list" where
  "urls_at_depth w s d =
     filter (\<lambda>url. url \<notin> visited_urls s) (sort_key (iteration_rank w d) (discovered_urls s))"

definition process_depth :: "crawl_world \<Rightarrow> scraper \<Rightarrow> nat \<Rightarrow> exn + scraper" where
  "process_depth w s d =
     (case begin_all w s (take 50 (urls_at_depth w s d)) (int d) of
        Inl e \<Rightarrow> Inl e
      | Inr (s', tasks) \<Rightarrow>
          Inr (finish_all w s' (sort_key (\<lambda>(url, n). completion_rank w d url) tasks) (int d)))"

text \<open>The loop over the depths, which stops at a depth with nothing left to visit.\<close>

fun depth_loop :: "crawl_world \<Rightarrow> scraper \<Rightarrow> nat list \<Rightarrow> exn + scraper" where
  "depth_loop w s [] = Inr s"
| "depth_loop w s (current_depth # depths) =
     (if urls_at_depth w s current_depth = [] then Inr s
      else (case process_depth w s current_depth of
              Inl e \<Rightarrow> Inl e
            | Inr s' \<Rightarrow> depth_loop w s' depths))"

text \<open>\<open>scrape_recursive\<close>, up to the summary it writes at the end.\<close>

definition scrape_recursive :: "crawl_world \<Rightarrow> scraper \<Rightarrow> exn + scraper" where
  "scrape_recursive w s =
     depth_loop w
       (s\<lparr>discovered_urls :=
             (if base_url s \<in> set (discovered_urls s) then discovered_urls s
              else discovered_urls s @ [base_url s])\<rparr>)
       [0..<nat (max_depth s + 1)]"

text \<open>
  The invariant of the frontier: no URL was requested twice, the requested URLs are the
  visited ones, and no URL was added to \<open>discovered_urls\<close> twice.
\<close>

definition frontier_inv :: "scraper \<Rightarrow> bool" where
  "frontier_inv s =
     (distinct (map fst (fetched s))
      \<and> set (map fst (fetched s)) = visited_urls s
      \<and> distinct (discovered_urls s))"

section \<open>Example worlds\<close>

text \<open>
  A site whose page has five anchors to pages of its own, and strategies beyond the static
  one that find nothing.
\<close>

definition five_links_world :: world where
  "five_links_world =
     \<lparr>bracketed_host_ok = (\<lambda>h. True),
      requests_get = (\<lambda>u. Inr \<lparr>status_code = 200, content = ''<html>'',
                                content_type = ''text/html''\<rparr>),
      find_all_a_href = (\<lambda>t. [''/p1'', ''/p2'', ''/p3'', ''/p4'', ''/p5'']),
      href_matches = (\<lambda>t. [''/p1'', ''/p2'', ''/p3'', ''/p4'', ''/p5'']),
      nextjs_data = (\<lambda>u. \<lparr>success = True, links = [], count = 0, error = None\<rparr>),
      dynamic_links = (\<lambda>u. \<lparr>success = True, links = [], count = 0, error = None\<rparr>),
      network_links = (\<lambda>u. Inr [])\<rparr>"

text \<open>A page of \<open>https://a.com\<close> with one anchor, to the host \<open>a.www.com\<close>.\<close>

definition cross_host_world :: world where
  "cross_host_world =
     \<lparr>bracketed_host_ok = (\<lambda>h. True),
      requests_get = (\<lambda>u. Inr \<lparr>status_code = 200, content = ''<html>'',
                                content_type = ''text/html''\<rparr>),
      find_all_a_href = (\<lambda>t. [''https://a.www.com/x'']),
      href_matches = (\<lambda>t. [''https://a.www.com/x'']),
      nextjs_data = (\<lambda>u. \<lparr>success = True, links = [], count = 0, error = None\<rparr>),
      dynamic_links = (\<lambda>u. \<lparr>success = True, links = [], count = 0, error = None\<rparr>),
      network_links = (\<lambda>u. Inr [])\<rparr>"

text \<open>
  A site \<open>http://h\<close> whose front page has 51 anchors, to \<open>/aa\<close>, \<open>/ab\<close>, ... \<open>/gc\<close>; every other
  request times out. Sets are iterated in the order of insertion and responses arrive in
  the order of the requests.
\<close>

definition names51 :: "string list" where
  "names51 = take 51 (concat (map (\<lambda>a. map (\<lambda>b. [a, b]) ''abcdefgh'') ''abcdefg''))"

definition wide_page :: soup where
  "wide_page = \<lparr>a_href = map (\<lambda>t. ''/'' @ t) names51, link_href = [], script_src = [],
                 img_src = [], style_attrs = []\<rparr>"

definition wide_world :: crawl_world where
  "wide_world =
     \<lparr>ip_address_ok = (\<lambda>h. True),
      session_get = (\<lambda>n url. if url = ''http://h''
                               then Inr \<lparr>status_code = 200, content = ''seed'',
                                         content_type = ''text/html''\<rparr>
                               else Inl Timeout),
      parse_html = (\<lambda>t. wide_page),
      save_file = (\<lambda>p. None),
      iteration_rank = (\<lambda>d url. 0),
      completion_rank = (\<lambda>d url. 0)\<rparr>"

text \<open>The state \<open>__init__\<close> gives for the seed \<open>http://h\<close> and a depth limit.\<close>

definition wide_start :: "int \<Rightarrow> scraper" where
  "wide_start depth_limit =
     \<lparr>base_url = ''http://h'', parsed_base_netloc = ''h'', max_depth = depth_limit,
      visited_urls = {}, discovered_urls = [], downloaded_files = [], fetched = []\<rparr>"

text \<open>A name of lower-case ASCII letters, as the names of the pages above.\<close>

definition plain_char :: "char \<Rightarrow> bool" where
  "plain_char c = (let n = (of_char c :: nat) in 97 \<le> n \<and> n \<le> 122)"

definition plain :: "string \<Rightarrow> bool" where
  "plain t = list_all plain_char t"

text \<open>
  The states of that crawl with depth limit 2: after depth 0, after depth 1, and at the
  end. \<open>wide_index\<close> is the entry of the front page in \<open>downloaded_files\<close>.
\<close>

definition wide_urls :: "string list" where
  "wide_urls = map (\<lambda>t. ''http://h/'' @ t) names51"

definition wide_index :: file_info where
  "wide_index =
     \<lparr>file_url = ''http://h'', filename = ''index.html'', file_type = ''html'', size = 4,
      file_content_type = ''text/html'', depth = 0, links_extracted = Some 51,
      link_extraction_error = None\<rparr>"

definition wide_after0 :: scraper where
  "wide_after0 =
     \<lparr>base_url = ''http://h'', parsed_base_netloc = ''h'', max_depth = 2,
      visited_urls = {''http://h''},
      discovered_urls = ''http://h'' # wide_urls,
      downloaded_files = [wide_index],
      fetched = [(''http://h'', 0)]\<rparr>"

definition wide_after1 :: scraper where
  "wide_after1 =
     wide_after0\<lparr>visited_urls := {''http://h''} \<union> set (take 50 wide_urls),
                 fetched := [(''http://h'', 0)] @ map (\<lambda>u. (u, 1)) (take 50 wide_urls)\<rparr>"

definition wide_final :: scraper where
  "wide_final =
     wide_after1\<lparr>visited_urls := visited_urls wide_after1 \<union> {''http://h/gc''},
                 fetched := fetched wide_after1 @ [(''http://h/gc'', 2)]\<rparr>"

section \<open>Facts about strings\<close>

lemma takeWhile_eq_replicate:
  "takeWhile (\<lambda>x. x = c) xs = replicate (length (takeWhile (\<lambda>x. x = c) xs)) c"
  by (induction xs) auto

lemma rstrip_decomp: "s = rstrip c s @ replicate (length (takeWhile (\<lambda>x. x = c) (rev s))) c"
proof -
  have "rev s = takeWhile (\<lambda>x. x = c) (rev s) @ dropWhile (\<lambda>x. x = c) (rev s)"
    by simp
  then have "s = rev (dropWhile (\<lambda>x. x = c) (rev s)) @ rev (takeWhile (\<lambda>x. x = c) (rev s))"
    by (metis rev_append rev_rev_ident)
  moreover have "rev (takeWhile (\<lambda>x. x = c) (rev s))
      = replicate (length (takeWhile (\<lambda>x. x = c) (rev s))) c"
    by (metis takeWhile_eq_replicate rev_replicate)
  ultimately show ?thesis by (simp add: rstrip_def)
qed

lemma rstrip_no_trailing: "rstrip c s = [] \<or> last (rstrip c s) \<noteq> c"
proof (cases "dropWhile (\<lambda>x. x = c) (rev s)")
  case Nil
  then show ?thesis by (simp add: rstrip_def)
next
  case (Cons y ys)
  then have "y \<noteq> c" using hd_dropWhile[of "\<lambda>x. x = c" "rev s"] by auto
  with Cons show ?thesis by (simp add: rstrip_def)
qed

lemma endswith_single: "endswith s [c] \<longleftrightarrow> s \<noteq> [] \<and> last s = c"
proof (cases s rule: rev_cases)
  case Nil
  then show ?thesis by (simp add: endswith_def)
next
  case (snoc ys y)
  then show ?thesis by (auto simp add: endswith_def)
qed

section \<open>Evaluating the URL functions\<close>

lemma split_scheme_https:
  "split_scheme (''https://'' @ rest) = (''https'', ''//'' @ rest)"
  by (simp add: split_scheme_def ascii_alpha_def scheme_chars_def lower_def lower_char_def
      is_upper_def)

lemma split_scheme_http:
  "split_scheme (''http://'' @ rest) = (''http'', ''//'' @ rest)"
  by (simp add: split_scheme_def ascii_alpha_def scheme_chars_def lower_def lower_char_def
      is_upper_def)

lemmas urlsplit_eval = urlsplit_def urlsplit2_def c0_control_or_space_def unsafe_url_byte_def
  splitnetloc_def netloc_delim_def before_def after_def

lemmas urlunparse_eval = urlunparse_def urlunsplit_def uses_netloc_def

lemma parse_qs_empty: "parse_qs [] = []"
  by (simp add: parse_qs_def parse_qsl_def)

lemma urlencode_empty: "urlencode [] = Inr []"
  by (simp add: urlencode_def)

section \<open>normalize\_url: the trailing slash\<close>

lemma normalize_url_Inr:
  assumes "urlparse ip_ok url = Inr (scheme, netloc, p, params, query, fragment)"
    and "normalize_url ip_ok url = Inr v"
  shows "\<exists>q. v = urlunparse (scheme, netloc,
            (if p \<noteq> ''/'' \<and> endswith p ''/'' then rstrip CHR ''/'' p else p), params, q, [])"
proof (cases "urlencode (filter (\<lambda>(key, value).
                 lower_cps key \<notin> set (map (\<lambda>p. lower_cps (cps p)) tracking_params))
               (parse_qs query))")
  case (Inl e)
  with assms show ?thesis by (simp add: normalize_url_def)
next
  case (Inr q)
  with assms have "v = urlunparse (scheme, netloc,
            (if p \<noteq> ''/'' \<and> endswith p ''/'' then rstrip CHR ''/'' p else p), params, q, [])"
    by (simp add: normalize_url_def)
  then show ?thesis by blast
qed

lemma urlparse_a_slashes:
  "urlparse ip_ok ''https://example.com/a//''
     = Inr (''https'', ''example.com'', ''/a//'', '''', '''', '''')"
  using split_scheme_https[of "''example.com/a//''"]
  by (simp add: urlparse_def urlparse2_def urlsplit_eval)

text \<open>
  C5, as stated, fails: a path that ends in two slashes loses both of them, where the claim
  has it keep one. \<open>https://example.com/a//\<close> becomes \<open>https://example.com/a\<close>.
\<close>

theorem normalize_url_double_slash_counterexample:
  "normalize_url (\<lambda>h. True) ''https://example.com/a//'' = Inr ''https://example.com/a''
   \<and> normalize_url (\<lambda>h. True) ''https://example.com/a//'' \<noteq> Inr ''https://example.com/a/''"
  by (simp add: normalize_url_def urlparse_a_slashes parse_qs_empty urlencode_empty
      endswith_def rstrip_def urlunparse_eval)

text \<open>
  C5, amended: when \<open>normalize_url\<close> returns, the path \<open>p'\<close> it puts into the result is the
  parsed path \<open>p\<close> without all of its trailing slashes: \<open>p\<close> is \<open>p'\<close> followed by slashes only,
  and \<open>p'\<close> does not end in a slash, unless \<open>p\<close> is the root path \<open>/\<close>, which stays as it is.
\<close>

theorem normalize_url_strips_all_trailing_slashes:
  assumes "urlparse ip_ok url = Inr (scheme, netloc, p, params, query, fragment)"
    and "normalize_url ip_ok url = Inr v"
  shows "\<exists>p' q n. v = urlunparse (scheme, netloc, p', params, q, [])
           \<and> p = p' @ replicate n CHR ''/''
           \<and> (if p = ''/'' then p' = ''/'' else \<not> endswith p' ''/'')"
proof -
  let ?p' = "if p \<noteq> ''/'' \<and> endswith p ''/'' then rstrip CHR ''/'' p else p"
  from normalize_url_Inr[OF assms] obtain q
    where v: "v = urlunparse (scheme, netloc, ?p', params, q, [])" by blast
  have "\<exists>n. p = ?p' @ replicate n CHR ''/''"
  proof (cases "p \<noteq> ''/'' \<and> endswith p ''/''")
    case True
    then show ?thesis using rstrip_decomp[of p "CHR ''/''"] by auto
  next
    case False
    then have "?p' = p" by auto
    then have "p = ?p' @ replicate 0 CHR ''/''" by simp
    then show ?thesis by blast
  qed
  moreover have "if p = ''/'' then ?p' = ''/'' else \<not> endswith ?p' ''/''"
    using rstrip_no_trailing[of "CHR ''/''" p] by (auto simp add: endswith_single)
  ultimately show ?thesis using v by blast
qed

theorem normalize_url_strips_all_trailing_slashes_witness:
  "\<exists>p' q n. ''https://example.com/a'' = urlunparse (''https'', ''example.com'', p', '''', q, [])
           \<and> ''/a//'' = p' @ replicate n CHR ''/''
           \<and> (if ''/a//'' = ''/'' then p' = ''/'' else \<not> endswith p' ''/'')"
proof -
  have "normalize_url (\<lambda>h. True) ''https://example.com/a//'' = Inr ''https://example.com/a''"
    by (simp add: normalize_url_def urlparse_a_slashes parse_qs_empty urlencode_empty
        endswith_def rstrip_def urlunparse_eval)
  from normalize_url_strips_all_trailing_slashes[OF urlparse_a_slashes this]
  show ?thesis .
qed

section \<open>Evaluating the strategies\<close>

lemmas url_eval = urlparse_def urlparse2_def urlsplit_def urlsplit2_def c0_control_or_space_def
  unsafe_url_byte_def splitnetloc_def netloc_delim_def before_def after_def
  split_scheme_def ascii_alpha_def scheme_chars_def lower_def lower_char_def is_upper_def
  uses_params_def uses_netloc_def uses_relative_def urlunparse_def urlunsplit_def
  urljoin_def filter_middle_def splitparams_def

lemmas str_eval = startswith_def endswith_def lower_def lower_char_def is_upper_def any_in_def

lemma urlparse_a_com:
  "urlparse ip_ok ''https://a.com'' = Inr (''https'', ''a.com'', '''', '''', '''', '''')"
  by (simp add: url_eval)

lemma base_domain_a_com: "replace ''www.'' [] (lower ''a.com'') = ''a.com''"
  by (simp add: str_eval)

lemma extract_static_links_success:
  assumes "urlparse (bracketed_host_ok w) url = Inr (scheme, netloc, rest)"
    and "requests_get w url = Inr r"
    and "raise_for_status r = Inr r'"
    and "static_anchors (bracketed_host_ok w) url (replace ''www.'' [] (lower netloc))
           (find_all_a_href w (content r')) = Inr added"
  shows "extract_static_links w url
           = \<lparr>success = True, links = sorted_list_of_set (set added),
              count = card (set added), error = None\<rparr>"
  using assms by (simp add: extract_static_links_def)

lemma status_200_ok:
  "raise_for_status \<lparr>status_code = 200, content = c, content_type = t\<rparr>
     = Inr \<lparr>status_code = 200, content = c, content_type = t\<rparr>"
  by (simp add: raise_for_status_def)

section \<open>The shape of the results\<close>

lemma well_shaped_static: "well_shaped (extract_static_links w url)"
  by (simp add: extract_static_links_def failure_def well_shaped_def Let_def
      split: sum.splits prod.splits)

lemma extract_links_from_html_sorted:
  "extract_links_from_html w h u = Inr found \<Longrightarrow> distinct found \<and> sorted found"
  by (auto simp add: extract_links_from_html_def Let_def split: sum.splits prod.splits)

lemma well_shaped_scrape_url: "well_shaped (scrape_url w url)"
  using extract_links_from_html_sorted
  by (auto simp add: scrape_url_def failure_def well_shaped_def Let_def
      split: sum.splits prod.splits)

lemma well_shaped_network: "well_shaped (extract_links_from_network w url)"
  by (simp add: extract_links_from_network_def failure_def well_shaped_def Let_def
      split: sum.splits prod.splits)

lemma well_shaped_hybrid: "well_shaped (fst (extract_links_hybrid w url))"
  by (simp add: extract_links_hybrid_def well_shaped_def Let_def)

text \<open>
  C10: in the result of \<open>scrape_url\<close>, \<open>extract_static_links\<close>, \<open>extract_links_hybrid\<close> and
  \<open>extract_links_from_network\<close>, in every world and for every URL, \<open>count\<close> is the length of
  \<open>links\<close>, and \<open>links\<close> has no duplicates and is sorted in ascending order.
\<close>

theorem result_shape_invariant:
  "well_shaped (scrape_url w url)
   \<and> well_shaped (extract_static_links w url)
   \<and> well_shaped (fst (extract_links_hybrid w url))
   \<and> well_shaped (extract_links_from_network w url)"
  by (simp add: well_shaped_scrape_url well_shaped_static well_shaped_hybrid
      well_shaped_network)

section \<open>The aggregator's escalation\<close>









theorem result_shape_invariant_witness:
  "well_shaped (scrape_url five_links_world ''https://a.com'')
   \<and> well_shaped (extract_static_links five_links_world ''https://a.com'')
   \<and> well_shaped (fst (extract_links_hybrid five_links_world ''https://a.com''))
   \<and> well_shaped (extract_links_from_network five_links_world ''https://a.com'')"
  by (rule result_shape_invariant)

section \<open>The same-origin filter\<close>

lemma urljoin_cross_host:
  "urljoin ip_ok ''https://a.com'' ''https://a.www.com/x'' = Inr ''https://a.www.com/x''"
  by (simp add: url_eval)

lemma urlparse_cross_host:
  "urlparse ip_ok ''https://a.www.com/x''
     = Inr (''https'', ''a.www.com'', ''/x'', '''', '''', '''')"
  by (simp add: url_eval)

lemma normalize_cross_host:
  "normalize_url ip_ok ''https://a.www.com/x'' = Inr ''https://a.www.com/x''"
  by (simp add: normalize_url_def urlparse_cross_host parse_qs_empty urlencode_empty
      endswith_def url_eval)

lemma static_cross_host:
  "static_anchors ip_ok ''https://a.com'' ''a.com'' [''https://a.www.com/x'']
     = Inr [''https://a.www.com/x'']"
  by (simp add: urljoin_cross_host urlparse_cross_host normalize_cross_host str_eval
      static_unwanted_def)

lemma html_cross_host:
  "html_matches ip_ok ''https://a.com'' ''a.com'' [''https://a.www.com/x'']
     = Inr [''https://a.www.com/x'']"
  by (simp add: urljoin_cross_host urlparse_cross_host normalize_cross_host str_eval
      html_unwanted_def before_def)

lemma sorted_singleton: "sorted_list_of_set (set [x]) = [x::string]"
  by simp

text \<open>
  C6: the code does not do what the claim says. The filter compares the network locations
  after removing every \<open>www.\<close> from them, not a leading one, so the host \<open>a.www.com\<close> passes
  for \<open>a.com\<close>: with the base \<open>https://a.com\<close>, the link \<open>https://a.www.com/x\<close> is in the links
  of \<open>extract_static_links\<close> and of \<open>extract_links_from_html\<close>.
\<close>

theorem same_origin_filter_lets_a_www_com_pass:
  "links (extract_static_links cross_host_world ''https://a.com'') = [''https://a.www.com/x'']
   \<and> extract_links_from_html cross_host_world ''<html>'' ''https://a.com''
        = Inr [''https://a.www.com/x'']"
proof -
  let ?r = "\<lparr>status_code = 200, content = ''<html>'', content_type = ''text/html''\<rparr>"
  have 1: "urlparse (bracketed_host_ok cross_host_world) ''https://a.com''
             = Inr (''https'', ''a.com'', '''', '''', '''', '''')"
    by (rule urlparse_a_com)
  have 2: "requests_get cross_host_world ''https://a.com'' = Inr ?r"
    by (simp add: cross_host_world_def)
  have 3: "raise_for_status ?r = Inr ?r"
    by (rule status_200_ok)
  have 4: "static_anchors (bracketed_host_ok cross_host_world) ''https://a.com''
             (replace ''www.'' [] (lower ''a.com''))
             (find_all_a_href cross_host_world (content ?r))
           = Inr [''https://a.www.com/x'']"
    unfolding base_domain_a_com
    by (simp only: cross_host_world_def world.simps static_cross_host)
  have a: "links (extract_static_links cross_host_world ''https://a.com'')
             = [''https://a.www.com/x'']"
    unfolding extract_static_links_success[OF 1 2 3 4] sorted_singleton by simp
  have 5: "html_matches (bracketed_host_ok cross_host_world) ''https://a.com''
             (replace ''www.'' [] (lower ''a.com''))
             (href_matches cross_host_world ''<html>'')
           = Inr [''https://a.www.com/x'']"
    unfolding base_domain_a_com
    by (simp only: cross_host_world_def world.simps html_cross_host)
  have b: "extract_links_from_html cross_host_world ''<html>'' ''https://a.com''
             = Inr [''https://a.www.com/x'']"
    unfolding extract_links_from_html_def 1 using 5 by (simp add: Let_def)
  from a b show ?thesis ..
qed

section \<open>The frontier: invariants\<close>

lemma should_download_total: "\<exists>b. should_download w s url = Inr b"
  by (auto simp add: should_download_def is_same_domain_def split: sum.splits)

lemma should_download_visited: "url \<in> visited_urls s \<Longrightarrow> should_download w s url = Inr False"
  by (simp add: should_download_def)

lemma begin_download_cases:
  "begin_download w s url d = Inr (s, False)
   \<or> (url \<notin> visited_urls s \<and> d \<le> max_depth s \<and> should_download w s url = Inr True
       \<and> begin_download w s url d
           = Inr (s\<lparr>visited_urls := insert url (visited_urls s),
                     fetched := fetched s @ [(url, d)]\<rparr>, True))"
proof -
  obtain b where b: "should_download w s url = Inr b"
    using should_download_total by blast
  show ?thesis
  proof (cases "b \<and> d \<le> max_depth s")
    case True
    moreover have "url \<notin> visited_urls s"
      using should_download_visited[of url s w] b True by auto
    ultimately show ?thesis using b by (simp add: begin_download_def)
  next
    case False
    then show ?thesis using b by (auto simp add: begin_download_def)
  qed
qed

lemma begin_download_inv:
  assumes "frontier_inv s" and "begin_download w s url d = Inr (s', started)"
  shows "frontier_inv s'"
proof (cases "begin_download w s url d = Inr (s, False)")
  case True
  with assms show ?thesis by simp
next
  case False
  with begin_download_cases[of w s url d] assms(2)
  have new: "url \<notin> visited_urls s"
    and s': "s' = s\<lparr>visited_urls := insert url (visited_urls s),
                     fetched := fetched s @ [(url, d)]\<rparr>"
    by auto
  from assms(1) have v: "set (map fst (fetched s)) = visited_urls s"
    and d1: "distinct (map fst (fetched s))" and d2: "distinct (discovered_urls s)"
    by (simp_all add: frontier_inv_def)
  from new v have "url \<notin> set (map fst (fetched s))" by simp
  with d1 d2 v show ?thesis
    unfolding s' frontier_inv_def by simp
qed

lemma extract_all_links_distinct:
  "extract_all_links w h u = Inr xs \<Longrightarrow> distinct xs"
  by (auto simp add: extract_all_links_def split: sum.splits)

lemma finish_download_fields:
  "visited_urls (fst (finish_download w s url d n)) = visited_urls s
   \<and> fetched (fst (finish_download w s url d n)) = fetched s
   \<and> max_depth (fst (finish_download w s url d n)) = max_depth s
   \<and> parsed_base_netloc (fst (finish_download w s url d n)) = parsed_base_netloc s"
  by (simp add: finish_download_def Let_def split: sum.splits option.splits prod.splits)

lemma finish_download_discovered:
  "\<exists>new. discovered_urls (fst (finish_download w s url d n)) = discovered_urls s @ new
     \<and> distinct new \<and> set new \<inter> set (discovered_urls s) = {}
     \<and> set new \<inter> visited_urls s = {}"
proof (cases "\<exists>r ft rp xs. session_get w n url = Inr r \<and> status_code r = 200
      \<and> get_file_type_and_path w url = Inr (ft, rp) \<and> save_file w rp = None
      \<and> is_html_content w url (lower (content_type r)) = Inr True \<and> d < max_depth s
      \<and> extract_all_links w (content r) url = Inr xs")
  case True
  then obtain r ft rp xs where h: "session_get w n url = Inr r" "status_code r = 200"
      "get_file_type_and_path w url = Inr (ft, rp)" "save_file w rp = None"
      "is_html_content w url (lower (content_type r)) = Inr True" "d < max_depth s"
      "extract_all_links w (content r) url = Inr xs" by blast
  let ?new = "filter (\<lambda>link. link \<notin> visited_urls s \<and> link \<notin> set (discovered_urls s)) xs"
  have "discovered_urls (fst (finish_download w s url d n)) = discovered_urls s @ ?new"
    using h by (simp add: finish_download_def Let_def)
  moreover have "distinct ?new" using extract_all_links_distinct[OF h(7)] by simp
  moreover have "set ?new \<inter> set (discovered_urls s) = {}" by auto
  moreover have "set ?new \<inter> visited_urls s = {}" by auto
  ultimately show ?thesis by blast
next
  case False
  then have "discovered_urls (fst (finish_download w s url d n)) = discovered_urls s"
    by (auto simp add: finish_download_def Let_def split: sum.splits option.splits prod.splits)
  then show ?thesis by simp
qed

lemma finish_download_inv:
  assumes "frontier_inv s"
  shows "frontier_inv (fst (finish_download w s url d n))"
proof -
  obtain new where "discovered_urls (fst (finish_download w s url d n)) = discovered_urls s @ new"
     "distinct new" "set new \<inter> set (discovered_urls s) = {}"
    using finish_download_discovered by blast
  then show ?thesis
    using assms finish_download_fields[of w s url d n]
    by (auto simp add: frontier_inv_def)
qed

lemma begin_download_total: "\<exists>r. begin_download w s url d = Inr r"
  using begin_download_cases[of w s url d] by auto

lemma begin_all_inv:
  "frontier_inv s \<Longrightarrow> \<exists>s' tasks. begin_all w s urls d = Inr (s', tasks) \<and> frontier_inv s'"
proof (induction urls arbitrary: s)
  case Nil
  then show ?case by simp
next
  case (Cons url urls)
  obtain s1 st where b: "begin_download w s url d = Inr (s1, st)"
    using begin_download_total[of w s url d] by auto
  with Cons.prems have "frontier_inv s1" by (rule begin_download_inv)
  from Cons.IH[OF this] obtain s2 tasks
    where "begin_all w s1 urls d = Inr (s2, tasks)" "frontier_inv s2" by blast
  with b show ?case by simp
qed

lemma finish_all_inv: "frontier_inv s \<Longrightarrow> frontier_inv (finish_all w s tasks d)"
proof (induction tasks arbitrary: s)
  case Nil
  then show ?case by simp
next
  case (Cons t tasks)
  obtain url n where t: "t = (url, n)" by (cases t)
  from Cons.prems have "frontier_inv (fst (finish_download w s url d n))"
    by (rule finish_download_inv)
  from Cons.IH[OF this] t show ?case by simp
qed

lemma process_depth_inv:
  assumes "frontier_inv s"
  shows "\<exists>s'. process_depth w s d = Inr s' \<and> frontier_inv s'"
proof -
  from begin_all_inv[OF assms] obtain s1 tasks
    where b: "begin_all w s (take 50 (urls_at_depth w s d)) (int d) = Inr (s1, tasks)"
      and i: "frontier_inv s1" by blast
  from i have "frontier_inv (finish_all w s1
      (sort_key (\<lambda>(url, n). completion_rank w d url) tasks) (int d))"
    by (rule finish_all_inv)
  with b show ?thesis by (simp add: process_depth_def)
qed

lemma depth_loop_inv:
  "frontier_inv s \<Longrightarrow> \<exists>s'. depth_loop w s depths = Inr s' \<and> frontier_inv s'"
proof (induction depths arbitrary: s)
  case Nil
  then show ?case by simp
next
  case (Cons d depths)
  show ?case
  proof (cases "urls_at_depth w s d = []")
    case True
    with Cons.prems show ?thesis by simp
  next
    case False
    from process_depth_inv[OF Cons.prems] obtain s1
      where p: "process_depth w s d = Inr s1" and i: "frontier_inv s1" by blast
    from Cons.IH[OF i] obtain s2 where "depth_loop w s1 depths = Inr s2" "frontier_inv s2"
      by blast
    with False p show ?thesis by simp
  qed
qed

lemma scrape_recursive_inv:
  assumes "frontier_inv s"
  shows "\<exists>s'. scrape_recursive w s = Inr s' \<and> frontier_inv s'"
proof -
  let ?s = "s\<lparr>discovered_urls :=
             (if base_url s \<in> set (discovered_urls s) then discovered_urls s
              else discovered_urls s @ [base_url s])\<rparr>"
  from assms have "frontier_inv ?s" by (simp add: frontier_inv_def)
  from depth_loop_inv[OF this] show ?thesis by (simp add: scrape_recursive_def)
qed

lemma init_scraper_inv: "init_scraper w seed depth_limit = Inr s \<Longrightarrow> frontier_inv s"
  by (auto simp add: init_scraper_def frontier_inv_def split: sum.splits)

lemma download_visited_skipped:
  "url \<in> visited_urls s \<Longrightarrow> download_single_file w s url d = Inr (s, Skipped url)"
  by (simp add: download_single_file_def begin_download_def should_download_visited)

text \<open>
  C4: in a crawl session started from a valid seed, whatever the pages contain and in
  whatever order the sets are iterated and the responses arrive, \<open>scrape_recursive\<close> returns
  a state in which no URL was requested twice, the requested URLs are exactly
  \<open>visited_urls\<close>, no URL was added to \<open>discovered_urls\<close> twice, and a call of
  \<open>download_single_file\<close> on a visited URL is skipped and changes nothing.
\<close>

theorem frontier_never_revisits:
  assumes "init_scraper w seed depth_limit = Inr s0"
  shows "\<exists>s. scrape_recursive w s0 = Inr s
           \<and> distinct (map fst (fetched s))
           \<and> set (map fst (fetched s)) = visited_urls s
           \<and> distinct (discovered_urls s)
           \<and> (\<forall>url \<in> visited_urls s. \<forall>d. download_single_file w s url d = Inr (s, Skipped url))"
proof -
  from assms have "frontier_inv s0" by (rule init_scraper_inv)
  from scrape_recursive_inv[OF this] obtain s
    where "scrape_recursive w s0 = Inr s" "frontier_inv s" by blast
  then show ?thesis
    using download_visited_skipped by (auto simp add: frontier_inv_def)
qed

lemma begin_all_total: "\<exists>r. begin_all w s urls d = Inr r"
proof (induction urls arbitrary: s)
  case Nil
  then show ?case by simp
next
  case (Cons url urls)
  obtain s1 st where b: "begin_download w s url d = Inr (s1, st)"
    using begin_download_total[of w s url d] by auto
  from Cons.IH[of s1] obtain r where "begin_all w s1 urls d = Inr r" by blast
  with b show ?case by (cases r) simp
qed

lemma process_depth_total: "\<exists>s'. process_depth w s d = Inr s'"
proof -
  obtain r where "begin_all w s (take 50 (urls_at_depth w s d)) (int d) = Inr r"
    using begin_all_total by blast
  then show ?thesis by (cases r) (simp add: process_depth_def)
qed

lemma depth_loop_total: "\<exists>s'. depth_loop w s depths = Inr s'"
proof (induction depths arbitrary: s)
  case Nil
  then show ?case by simp
next
  case (Cons d depths)
  obtain s1 where p: "process_depth w s d = Inr s1" using process_depth_total by blast
  from Cons.IH[of s1] obtain s2 where "depth_loop w s1 depths = Inr s2" by blast
  with p show ?case by simp
qed

lemma scrape_recursive_total: "\<exists>s'. scrape_recursive w s = Inr s'"
  by (simp add: scrape_recursive_def depth_loop_total)

lemma download_single_file_total: "\<exists>r. download_single_file w s url d = Inr r"
  using begin_download_total[of w s url d]
  by (auto simp add: download_single_file_def)

lemma finish_download_error:
  assumes "(\<exists>e. session_get w n url = Inl e)
           \<or> (\<exists>r. session_get w n url = Inr r \<and> status_code r \<noteq> 200)"
  shows "fst (finish_download w s url d n) = s
         \<and> ((\<exists>e. snd (finish_download w s url d n) = Error_result url e d)
             \<or> (\<exists>c. snd (finish_download w s url d n) = Http_error url c))"
  using assms by (auto simp add: finish_download_def)

text \<open>
  C9: when \<open>download_single_file\<close> goes on to fetch a target (\<open>should_download\<close> holds and
  the depth is within \<open>max_depth\<close>) and the request ends in an exception (network error,
  timeout) or in a status that is not 2xx, the call returns, as data, an error dictionary;
  the target is in \<open>visited_urls\<close> and was requested once; nothing was added to
  \<open>discovered_urls\<close>; every later call of \<open>download_single_file\<close> on the target is skipped;
  and the rest of the session, \<open>scrape_recursive\<close>, returns without an exception. No call of
  \<open>download_single_file\<close> lets an exception out.
\<close>

theorem fetch_errors_are_data:
  assumes "should_download w s url = Inr True" and "d \<le> max_depth s"
    and "(\<exists>e. session_get w (length (fetched s)) url = Inl e)
         \<or> (\<exists>r. session_get w (length (fetched s)) url = Inr r
                 \<and> \<not> (200 \<le> status_code r \<and> status_code r < 300))"
  shows "\<exists>s' res. download_single_file w s url d = Inr (s', res)
           \<and> ((\<exists>e. res = Error_result url e d) \<or> (\<exists>c. res = Http_error url c))
           \<and> url \<in> visited_urls s'
           \<and> fetched s' = fetched s @ [(url, d)]
           \<and> discovered_urls s' = discovered_urls s
           \<and> (\<forall>d'. download_single_file w s' url d' = Inr (s', Skipped url))
           \<and> (\<exists>final. scrape_recursive w s' = Inr final)
           \<and> (\<forall>s2 url2 d2. \<exists>r. download_single_file w s2 url2 d2 = Inr r)"
proof -
  let ?s1 = "s\<lparr>visited_urls := insert url (visited_urls s),
                fetched := fetched s @ [(url, d)]\<rparr>"
  let ?n = "length (fetched s)"
  from assms(1,2) have b: "begin_download w s url d = Inr (?s1, True)"
    by (simp add: begin_download_def)
  from assms(3) have "(\<exists>e. session_get w ?n url = Inl e)
      \<or> (\<exists>r. session_get w ?n url = Inr r \<and> status_code r \<noteq> 200)" by auto
  from finish_download_error[OF this, of ?s1 d]
  have f: "fst (finish_download w ?s1 url d ?n) = ?s1"
    and r: "(\<exists>e. snd (finish_download w ?s1 url d ?n) = Error_result url e d)
            \<or> (\<exists>c. snd (finish_download w ?s1 url d ?n) = Http_error url c)"
    by simp_all
  have d: "download_single_file w s url d
             = Inr (?s1, snd (finish_download w ?s1 url d ?n))"
    using b f by (simp add: download_single_file_def prod_eq_iff)
  have "url \<in> visited_urls ?s1" by simp
  then have skip: "\<forall>d'. download_single_file w ?s1 url d' = Inr (?s1, Skipped url)"
    using download_visited_skipped by blast
  from d r skip scrape_recursive_total[of w ?s1] download_single_file_total[of w]
  show ?thesis by auto
qed

lemma begin_download_effect:
  assumes "begin_download w s url d = Inr (s', started)"
  shows "visited_urls s' \<subseteq> insert url (visited_urls s)
         \<and> visited_urls s \<subseteq> visited_urls s'
         \<and> discovered_urls s' = discovered_urls s"
  using begin_download_cases[of w s url d] assms by auto

lemma begin_all_effect:
  "begin_all w s urls d = Inr (s', tasks) \<Longrightarrow>
     visited_urls s' \<subseteq> visited_urls s \<union> set urls
     \<and> visited_urls s \<subseteq> visited_urls s'
     \<and> discovered_urls s' = discovered_urls s"
proof (induction urls arbitrary: s s' tasks)
  case Nil
  then show ?case by simp
next
  case (Cons url urls)
  obtain s1 st where b: "begin_download w s url d = Inr (s1, st)"
    using begin_download_total[of w s url d] by auto
  obtain s2 ts where a: "begin_all w s1 urls d = Inr (s2, ts)"
    using begin_all_total[of w s1 urls d] by auto
  from Cons.prems b a have s': "s' = s2" by simp
  from Cons.IH[OF a] begin_download_effect[OF b] show ?case
    unfolding s' by auto
qed

lemma finish_all_effect:
  "visited_urls (finish_all w s tasks d) = visited_urls s
   \<and> set (discovered_urls s) \<subseteq> set (discovered_urls (finish_all w s tasks d))"
proof (induction tasks arbitrary: s)
  case Nil
  then show ?case by simp
next
  case (Cons t tasks)
  obtain url n where t: "t = (url, n)" by (cases t)
  let ?s1 = "fst (finish_download w s url d n)"
  obtain new where "discovered_urls ?s1 = discovered_urls s @ new"
    using finish_download_discovered by blast
  then have "set (discovered_urls s) \<subseteq> set (discovered_urls ?s1)" by simp
  with Cons.IH[of ?s1] finish_download_fields[of w s url d n] t show ?case by auto
qed

lemma set_urls_at_depth:
  "set (urls_at_depth w s d) = set (discovered_urls s) - visited_urls s"
  by (auto simp add: urls_at_depth_def)

lemma distinct_urls_at_depth:
  "distinct (discovered_urls s) \<Longrightarrow> distinct (urls_at_depth w s d)"
  by (simp add: urls_at_depth_def)

lemma drop_not_in_take: "distinct xs \<Longrightarrow> x \<in> set (drop n xs) \<Longrightarrow> x \<notin> set (take n xs)"
  using append_take_drop_id[of n xs] distinct_append[of "take n xs" "drop n xs"] by auto

text \<open>
  C8, amended: the targets beyond the first 50 of a depth are not fetched at that depth and
  are not dropped. After the depth is processed they are still in \<open>discovered_urls\<close> and not
  in \<open>visited_urls\<close>, so they are among the targets of the next depth of the same session.
\<close>

theorem surplus_is_deferred:
  assumes "distinct (discovered_urls s)"
    and "process_depth w s d = Inr s'"
    and "url \<in> set (drop 50 (urls_at_depth w s d))"
  shows "url \<notin> visited_urls s' \<and> url \<in> set (discovered_urls s')
         \<and> url \<in> set (urls_at_depth w s' (Suc d))"
proof -
  let ?batch = "take 50 (urls_at_depth w s d)"
  obtain s1 tasks where b: "begin_all w s ?batch (int d) = Inr (s1, tasks)"
    using begin_all_total[of w s ?batch "int d"] by auto
  with assms(2) have s': "s' = finish_all w s1
      (sort_key (\<lambda>(url, n). completion_rank w d url) tasks) (int d)"
    by (simp add: process_depth_def)
  from assms(3) have u: "url \<in> set (urls_at_depth w s d)" by (rule in_set_dropD)
  then have u1: "url \<in> set (discovered_urls s)" and u2: "url \<notin> visited_urls s"
    by (simp_all add: set_urls_at_depth)
  have u3: "url \<notin> set ?batch"
    using distinct_urls_at_depth[OF assms(1)] assms(3) by (rule drop_not_in_take)
  from begin_all_effect[OF b] u1 u2 u3
  have "url \<notin> visited_urls s1" and "url \<in> set (discovered_urls s1)" by auto
  with finish_all_effect[of w s1 _ "int d"] s'
  have "url \<notin> visited_urls s'" and "url \<in> set (discovered_urls s')" by auto
  then show ?thesis by (simp add: set_urls_at_depth)
qed

section \<open>A crawl over more than fifty targets\<close>

lemma plain_notin: "plain t \<Longrightarrow> \<not> plain_char c \<Longrightarrow> c \<notin> set t"
  by (auto simp add: plain_def list_all_iff)

lemma plain_filter_unsafe: "plain t \<Longrightarrow> filter (\<lambda>c. \<not> unsafe_url_byte c) t = t"
proof -
  assume "plain t"
  then have "\<forall>c \<in> set t. \<not> unsafe_url_byte c"
    by (auto simp add: plain_def list_all_iff plain_char_def unsafe_url_byte_def)
  then show ?thesis by (simp add: filter_id_conv)
qed

lemma urlparse_plain:
  assumes "plain t"
  shows "urlparse ip_ok (''http://h/'' @ t) = Inr (''http'', ''h'', ''/'' @ t, '''', '''', '''')"
proof -
  have 1: "filter (\<lambda>c. \<not> unsafe_url_byte c) (''http://h/'' @ t) = ''http://h/'' @ t"
    using plain_filter_unsafe[OF assms] by (simp add: unsafe_url_byte_def)
  have 2: "split_scheme (''http://h/'' @ t) = (''http'', ''//h/'' @ t)"
    by (simp add: split_scheme_def ascii_alpha_def scheme_chars_def lower_def lower_char_def
        is_upper_def)
  have 3: "CHR ''#'' \<notin> set t" "CHR ''?'' \<notin> set t" "CHR '';'' \<notin> set t"
    using plain_notin[OF assms] by (simp_all add: plain_char_def)
  have 4: "dropWhile c0_control_or_space (''http://h/'' @ t) = ''http://h/'' @ t"
    by (simp add: c0_control_or_space_def)
  show ?thesis
    unfolding urlparse_def urlparse2_def urlsplit2_def 4 Let_def 1 2
    using 3 by (simp add: splitnetloc_def netloc_delim_def uses_params_def)
qed

lemma plain_no_slash: "plain t \<Longrightarrow> take 1 t \<noteq> ''/''"
  by (cases t) (auto simp add: plain_def plain_char_def)

lemma split_no_sep: "c \<notin> set t \<Longrightarrow> split c t = [t]"
  by (induction t) auto

lemma urlparse_seed:
  "urlparse ip_ok ''http://h'' = Inr (''http'', ''h'', '''', '''', '''', '''')"
  by (simp add: urlparse_def urlparse2_def urlsplit2_def c0_control_or_space_def
      unsafe_url_byte_def split_scheme_def ascii_alpha_def scheme_chars_def lower_def
      lower_char_def is_upper_def splitnetloc_def netloc_delim_def uses_params_def)

lemma urlparse2_relative_plain:
  assumes "plain t"
  shows "urlparse2 ip_ok (''/'' @ t) ''http'' = Inr (''http'', '''', ''/'' @ t, '''', '''', '''')"
proof -
  have 1: "filter (\<lambda>c. \<not> unsafe_url_byte c) (''/'' @ t) = ''/'' @ t"
    using plain_filter_unsafe[OF assms] by (simp add: unsafe_url_byte_def)
  have 3: "CHR ''#'' \<notin> set t" "CHR ''?'' \<notin> set t" "CHR '';'' \<notin> set t" "CHR '':'' \<notin> set t"
    using plain_notin[OF assms] by (simp_all add: plain_char_def)
  have 2: "split_scheme (''/'' @ t) = ([], ''/'' @ t)"
    using 3 by (simp add: split_scheme_def)
  have 4: "dropWhile c0_control_or_space (''/'' @ t) = ''/'' @ t"
    by (simp add: c0_control_or_space_def)
  have 5: "rev (dropWhile c0_control_or_space (rev (dropWhile c0_control_or_space ''http'')))
             = ''http''"
    by (simp add: c0_control_or_space_def)
  have 6: "filter (\<lambda>c. \<not> unsafe_url_byte c) ''http'' = ''http''"
    by (simp add: unsafe_url_byte_def)
  have 7: "take 2 (''/'' @ t) \<noteq> ''//''"
    using plain_no_slash[OF assms] by (cases t) auto
  show ?thesis
    unfolding urlparse2_def urlsplit2_def 4 5 Let_def 1 2 6
    using 3 7 by (simp add: uses_params_def)
qed

lemma urljoin_plain:
  assumes "plain t"
  shows "urljoin ip_ok ''http://h'' (''/'' @ t) = Inr (''http://h/'' @ t)"
proof -
  have b: "urlparse2 ip_ok ''http://h'' [] = Inr (''http'', ''h'', '''', '''', '''', '''')"
    using urlparse_seed[of ip_ok] by (simp add: urlparse_def)
  have s: "CHR ''/'' \<notin> set t" using plain_notin[OF assms] by (simp add: plain_char_def)
  have sp: "split CHR ''/'' (''/'' @ t) = [[], t]"
    using split_no_sep[OF s] by simp
  have d: "t \<noteq> ''..''" "t \<noteq> ''.''"
    using assms by (auto simp add: plain_def plain_char_def)
  note r = urlparse2_relative_plain[OF assms, of ip_ok, simplified]
  note sp' = sp[simplified]
  show ?thesis
    unfolding urljoin_def
    using d by (simp add: b r uses_relative_def uses_netloc_def sp' urlunparse_def
        urlunsplit_def)
qed

lemma clean_url_plain:
  assumes "plain t"
  shows "clean_url w (''http://h/'' @ t) = Inr (''http://h/'' @ t)"
  unfolding clean_url_def
  by (simp add: urlparse_plain[OF assms, simplified] urlunparse_def urlunsplit_def
      uses_netloc_def)

lemma plain_not_space: "plain t \<Longrightarrow> c \<in> set t \<Longrightarrow> \<not> isspace c"
  by (auto simp add: plain_def list_all_iff plain_char_def isspace_def Let_def)

lemma strip_plain:
  assumes "plain t"
  shows "strip (''/'' @ t) = ''/'' @ t"
proof -
  have 1: "dropWhile isspace (''/'' @ t) = ''/'' @ t"
    by (simp add: isspace_def)
  have 2: "dropWhile isspace (rev t @ ''/'') = rev t @ ''/''"
  proof (cases "rev t")
    case Nil
    then show ?thesis by (simp add: isspace_def)
  next
    case (Cons c cs)
    then have "c \<in> set t" by (metis list.set_intros(1) set_rev)
    with assms have "\<not> isspace c" by (rule plain_not_space)
    with Cons show ?thesis by simp
  qed
  show ?thesis unfolding strip_def 1 using 2 by simp
qed

lemma link_candidates_plain:
  assumes "\<forall>t \<in> set ns. plain t"
  shows "link_candidates \<lparr>a_href = map (\<lambda>t. ''/'' @ t) ns, link_href = [], script_src = [],
                           img_src = [], style_attrs = []\<rparr> = map (\<lambda>t. ''/'' @ t) ns"
proof -
  have 1: "map strip (map (\<lambda>t. ''/'' @ t) ns) = map (\<lambda>t. ''/'' @ t) ns"
    using assms strip_plain by (induction ns) auto
  have 2: "filter (\<lambda>href. href \<noteq> [] \<and> \<not> startswith href ''#''
             \<and> \<not> startswith href ''mailto:'' \<and> \<not> startswith href ''tel:'')
             (map (\<lambda>t. ''/'' @ t) ns) = map (\<lambda>t. ''/'' @ t) ns"
    by (induction ns) (auto simp add: startswith_def)
  show ?thesis
    unfolding link_candidates_def soup.simps 1 2 by simp
qed

lemma resolve_all_plain:
  assumes "\<forall>t \<in> set ns. plain t"
  shows "resolve_all w ''http://h'' (map (\<lambda>t. ''/'' @ t) ns)
           = Inr (map (\<lambda>t. ''http://h/'' @ t) ns)"
  using assms
proof (induction ns)
  case Nil
  then show ?case by simp
next
  case (Cons t ns)
  then have p: "plain t" and r: "resolve_all w ''http://h'' (map (\<lambda>t. ''/'' @ t) ns)
           = Inr (map (\<lambda>t. ''http://h/'' @ t) ns)" by simp_all
  have "resolve_all w ''http://h'' ((''/'' @ t) # map (\<lambda>t. ''/'' @ t) ns)
          = Inr ((''http://h/'' @ t) # map (\<lambda>t. ''http://h/'' @ t) ns)"
    using urljoin_plain[OF p, of "ip_address_ok w"] clean_url_plain[OF p, of w] r
    by simp
  then show ?case by simp
qed

lemma startswith_subset: "startswith s p \<Longrightarrow> set p \<subseteq> set s"
  unfolding startswith_def by (metis set_take_subset)

lemma contains_subset: "contains s p \<Longrightarrow> set p \<subseteq> set s"
proof (induction s)
  case Nil
  then show ?case by simp
next
  case (Cons a s)
  then consider "startswith (a # s) p" | "contains s p" by auto
  then show ?case
  proof cases
    case 1
    then show ?thesis by (rule startswith_subset)
  next
    case 2
    with Cons.IH show ?thesis by auto
  qed
qed

lemma lower_plain: "plain t \<Longrightarrow> lower t = t"
proof -
  assume "plain t"
  then have "\<forall>c \<in> set t. lower_char c = c"
    by (auto simp add: plain_def list_all_iff plain_char_def lower_char_def is_upper_def Let_def)
  then show ?thesis by (simp add: lower_def map_idI)
qed

lemma no_skip_pattern_plain:
  assumes "plain t"
  shows "\<not> any_in skip_patterns (lower (''/'' @ t))"
proof -
  have l: "lower (''/'' @ t) = ''/'' @ t"
    using lower_plain[OF assms] by (simp add: lower_def lower_char_def is_upper_def)
  have n: "CHR ''.'' \<notin> set (''/'' @ t)" "CHR ''_'' \<notin> set (''/'' @ t)"
    using plain_notin[OF assms] by (simp_all add: plain_char_def)
  have "\<not> contains (''/'' @ t) p" if "CHR ''.'' \<in> set p \<or> CHR ''_'' \<in> set p" for p
    using contains_subset[of "''/'' @ t" p] n that by auto
  then show ?thesis
    unfolding l any_in_def skip_patterns_def by simp
qed

lemma should_download_plain:
  assumes "plain t" and "parsed_base_netloc s = ''h''"
  shows "should_download w s (''http://h/'' @ t) = Inr (''http://h/'' @ t \<notin> visited_urls s)"
  using no_skip_pattern_plain[OF assms(1)] assms(2)
  by (simp add: should_download_def is_same_domain_def
      urlparse_plain[OF assms(1), simplified])

lemma should_download_seed:
  assumes "parsed_base_netloc s = ''h''"
  shows "should_download w s ''http://h'' = Inr (''http://h'' \<notin> visited_urls s)"
  using assms
  by (simp add: should_download_def is_same_domain_def urlparse_seed any_in_def
      skip_patterns_def lower_def startswith_def)

lemma begin_all_fresh:
  assumes "\<And>u (s'::scraper). u \<in> set us \<Longrightarrow> parsed_base_netloc s' = parsed_base_netloc s
             \<Longrightarrow> should_download w s' u = Inr (u \<notin> visited_urls s')"
    and "distinct us" and "set us \<inter> visited_urls s = {}" and "d \<le> max_depth s"
  shows "begin_all w s us d
           = Inr (s\<lparr>visited_urls := visited_urls s \<union> set us,
                     fetched := fetched s @ map (\<lambda>u. (u, d)) us\<rparr>,
                  zip us [length (fetched s)..<length (fetched s) + length us])"
  using assms
proof (induction us arbitrary: s)
  case Nil
  then show ?case by simp
next
  case (Cons u us)
  let ?s1 = "s\<lparr>visited_urls := insert u (visited_urls s), fetched := fetched s @ [(u, d)]\<rparr>"
  have "should_download w s u = Inr (u \<notin> visited_urls s)"
    using Cons.prems(1)[of u s] by simp
  moreover have "u \<notin> visited_urls s" using Cons.prems(3) by auto
  ultimately have b: "begin_download w s u d = Inr (?s1, True)"
    using Cons.prems(4) by (simp add: begin_download_def)
  have ih: "begin_all w ?s1 us d
           = Inr (?s1\<lparr>visited_urls := visited_urls ?s1 \<union> set us,
                     fetched := fetched ?s1 @ map (\<lambda>u. (u, d)) us\<rparr>,
                  zip us [length (fetched ?s1)..<length (fetched ?s1) + length us])"
  proof (rule Cons.IH)
    fix v and s' :: scraper
    assume "v \<in> set us" "parsed_base_netloc s' = parsed_base_netloc ?s1"
    then show "should_download w s' v = Inr (v \<notin> visited_urls s')"
      using Cons.prems(1)[of v s'] by simp
  next
    show "distinct us" using Cons.prems(2) by simp
    show "set us \<inter> visited_urls ?s1 = {}" using Cons.prems(2,3) by auto
    show "d \<le> max_depth ?s1" using Cons.prems(4) by simp
  qed
  have z: "zip (u # us) [length (fetched s)..<length (fetched s) + length (u # us)]
      = (u, length (fetched s)) # zip us [Suc (length (fetched s))..<Suc (length (fetched s)) + length us]"
    by (simp add: upt_rec)
  show ?case
    unfolding begin_all.simps b z using ih by simp
qed

lemma finish_all_failed:
  assumes "\<forall>(u, n) \<in> set tasks. \<exists>e. session_get w n u = Inl e"
  shows "finish_all w s tasks d = s"
  using assms
proof (induction tasks arbitrary: s)
  case Nil
  then show ?case by simp
next
  case (Cons t tasks)
  obtain u n where t: "t = (u, n)" by (cases t)
  with Cons.prems have "\<exists>e. session_get w n u = Inl e" by simp
  then have "fst (finish_download w s u d n) = s"
    using finish_download_error[of w n u s d] by blast
  with Cons t show ?case by simp
qed

lemma sort_key_const:
  assumes "\<And>x. f x = (c::nat)"
  shows "sort_key f xs = xs"
proof (induction xs)
  case Nil
  then show ?case by simp
next
  case (Cons x xs)
  have "insort_key f x xs = x # xs" using assms by (cases xs) simp_all
  with Cons show ?case by simp
qed

lemma names51_plain: "\<forall>t \<in> set names51. plain t"
  by (simp add: names51_def plain_def plain_char_def)

lemma names51_distinct: "distinct names51"
  by (simp add: names51_def)

lemma names51_length: "length names51 = 51"
  by (simp add: names51_def)

lemma names51_last: "names51 ! 50 = ''gc''"
  by (simp add: names51_def)

lemma wide_urls_distinct: "distinct wide_urls"
  unfolding wide_urls_def using names51_distinct by (simp add: distinct_map inj_on_def)

lemma wide_urls_length: "length wide_urls = 51"
  by (simp add: wide_urls_def names51_length)

lemma wide_urls_split: "wide_urls = take 50 wide_urls @ [''http://h/gc'']"
proof -
  have "wide_urls = take 50 wide_urls @ drop 50 wide_urls" by simp
  moreover have "50 < length wide_urls" using wide_urls_length by simp
  then have "drop 50 wide_urls = wide_urls ! 50 # drop (Suc 50) wide_urls"
    by (rule Cons_nth_drop_Suc[symmetric])
  moreover have "length wide_urls \<le> Suc 50" using wide_urls_length by simp
  then have "drop (Suc 50) wide_urls = []" by (rule drop_all)
  moreover have "wide_urls ! 50 = ''http://h/gc''"
    using names51_last names51_length by (simp add: wide_urls_def)
  ultimately show ?thesis by simp
qed

lemma wide_urls_plain: "u \<in> set wide_urls \<Longrightarrow> \<exists>t. plain t \<and> u = ''http://h/'' @ t"
  using names51_plain by (auto simp add: wide_urls_def)

lemma wide_urls_not_seed: "''http://h'' \<notin> set wide_urls"
  by (auto simp add: wide_urls_def)

lemma wide_should_download:
  assumes "u \<in> set wide_urls" and "parsed_base_netloc s = ''h''"
  shows "should_download w s u = Inr (u \<notin> visited_urls s)"
  using wide_urls_plain[OF assms(1)] should_download_plain[OF _ assms(2)] by auto

lemma wide_timeout: "u \<in> set wide_urls \<Longrightarrow> session_get wide_world n u = Inl Timeout"
  using wide_urls_not_seed by (auto simp add: wide_world_def)

lemma extract_wide: "extract_all_links wide_world c ''http://h'' = Inr wide_urls"
proof -
  have "link_candidates (parse_html wide_world c) = map (\<lambda>t. ''/'' @ t) names51"
    using link_candidates_plain[OF names51_plain] by (simp add: wide_world_def wide_page_def)
  then show ?thesis
    using resolve_all_plain[OF names51_plain, of wide_world] wide_urls_distinct
    by (simp add: extract_all_links_def wide_urls_def)
qed

lemma file_type_seed: "get_file_type_and_path w ''http://h'' = Inr (''html'', ''index.html'')"
  by (simp add: get_file_type_and_path_def urlparse_seed lstrip_def rstrip_def)

lemma finish_seed:
  "finish_download wide_world
     \<lparr>base_url = ''http://h'', parsed_base_netloc = ''h'', max_depth = 2,
      visited_urls = {''http://h''}, discovered_urls = [''http://h''],
      downloaded_files = [], fetched = [(''http://h'', 0)]\<rparr> ''http://h'' 0 0
   = (wide_after0, Downloaded wide_index)"
proof -
  have g: "session_get wide_world 0 ''http://h''
     = Inr \<lparr>status_code = 200, content = ''seed'', content_type = ''text/html''\<rparr>"
    by (simp add: wide_world_def)
  have sv: "save_file wide_world ''index.html'' = None"
    by (simp add: wide_world_def)
  have l: "lower ''text/html'' = ''text/html''"
    by (simp add: lower_def lower_char_def is_upper_def)
  have h: "is_html_content wide_world ''http://h'' ''text/html'' = Inr True"
    by (simp add: is_html_content_def l startswith_def)
  have f: "filter (\<lambda>link. link \<notin> {''http://h''} \<and> link \<notin> set [''http://h'']) wide_urls
      = wide_urls"
    using wide_urls_not_seed by (simp add: filter_id_conv) metis
  show ?thesis
    unfolding finish_download_def g
    using f by (simp add: file_type_seed sv l h extract_wide Let_def wide_after0_def
        wide_index_def wide_urls_length)
qed

lemma wide_rank: "sort_key (iteration_rank wide_world d) xs = xs"
  by (rule sort_key_const[of _ 0]) (simp add: wide_world_def)

lemma wide_completion: "sort_key (\<lambda>(url, n). completion_rank wide_world d url) xs = xs"
  by (rule sort_key_const[of _ 0]) (simp add: wide_world_def split: prod.splits)

lemma wide_depth0:
  "process_depth wide_world ((wide_start 2)\<lparr>discovered_urls := [''http://h'']\<rparr>) 0
     = Inr wide_after0"
proof -
  let ?s = "(wide_start 2)\<lparr>discovered_urls := [''http://h'']\<rparr>"
  have u: "urls_at_depth wide_world ?s 0 = [''http://h'']"
    unfolding urls_at_depth_def wide_rank by (simp add: wide_start_def)
  have b: "begin_all wide_world ?s [''http://h''] 0
     = Inr (?s\<lparr>visited_urls := visited_urls ?s \<union> set [''http://h''],
                fetched := fetched ?s @ map (\<lambda>u. (u, 0)) [''http://h'']\<rparr>,
            zip [''http://h''] [length (fetched ?s)..<length (fetched ?s) + length [''http://h'']])"
  proof (rule begin_all_fresh)
    fix u and s' :: scraper
    assume "u \<in> set [''http://h'']" "parsed_base_netloc s' = parsed_base_netloc ?s"
    then show "should_download wide_world s' u = Inr (u \<notin> visited_urls s')"
      using should_download_seed[of s' wide_world] by (simp add: wide_start_def)
  qed (simp_all add: wide_start_def)
  show ?thesis
    unfolding process_depth_def u
    using b finish_seed by (simp add: wide_completion wide_start_def)
qed

lemma wide_batch1: "urls_at_depth wide_world wide_after0 1 = wide_urls"
  unfolding urls_at_depth_def wide_rank
  using wide_urls_not_seed by (auto simp add: wide_after0_def filter_id_conv)

lemma wide_depth1: "process_depth wide_world wide_after0 1 = Inr wide_after1"
proof -
  let ?us = "take 50 wide_urls"
  have sub: "set ?us \<subseteq> set wide_urls" by (rule set_take_subset)
  have b: "begin_all wide_world wide_after0 ?us 1
     = Inr (wide_after0\<lparr>visited_urls := visited_urls wide_after0 \<union> set ?us,
                fetched := fetched wide_after0 @ map (\<lambda>u. (u, 1)) ?us\<rparr>,
            zip ?us [length (fetched wide_after0)..<length (fetched wide_after0) + length ?us])"
  proof (rule begin_all_fresh)
    fix u and s' :: scraper
    assume "u \<in> set ?us" "parsed_base_netloc s' = parsed_base_netloc wide_after0"
    then show "should_download wide_world s' u = Inr (u \<notin> visited_urls s')"
      using sub wide_should_download[of u s' wide_world] by (auto simp add: wide_after0_def)
  next
    show "distinct ?us" using wide_urls_distinct by simp
    show "set ?us \<inter> visited_urls wide_after0 = {}"
      using sub wide_urls_not_seed by (auto simp add: wide_after0_def)
    show "1 \<le> max_depth wide_after0" by (simp add: wide_after0_def)
  qed
  have f: "finish_all wide_world s
      (zip ?us [length (fetched wide_after0)..<length (fetched wide_after0) + length ?us]) 1 = s"
    for s
  proof (rule finish_all_failed)
    show "\<forall>(u, n) \<in> set (zip ?us [length (fetched wide_after0)..<
        length (fetched wide_after0) + length ?us]). \<exists>e. session_get wide_world n u = Inl e"
      using sub wide_timeout by (auto dest!: set_zip_leftD)
  qed
  show ?thesis
    unfolding process_depth_def wide_batch1
    using b f by (simp add: wide_completion wide_after1_def wide_after0_def)
qed

lemma wide_batch2: "urls_at_depth wide_world wide_after1 2 = [''http://h/gc'']"
proof -
  have n: "''http://h/gc'' \<notin> set (take 50 wide_urls)"
    using wide_urls_distinct wide_urls_split
    by (metis distinct_append disjoint_iff list.set_intros(1))
  have "filter (\<lambda>url. url \<noteq> ''http://h'' \<and> url \<notin> set (take 50 wide_urls))
          (take 50 wide_urls @ [''http://h/gc'']) = [''http://h/gc'']"
    using n by (simp add: filter_empty_conv)
  then have "filter (\<lambda>url. url \<noteq> ''http://h'' \<and> url \<notin> set (take 50 wide_urls)) wide_urls
      = [''http://h/gc'']"
    using wide_urls_split by simp
  then show ?thesis
    unfolding urls_at_depth_def wide_rank
    by (simp add: wide_after1_def wide_after0_def)
qed

lemma wide_depth2: "process_depth wide_world wide_after1 2 = Inr wide_final"
proof -
  have in_urls: "''http://h/gc'' \<in> set wide_urls"
    using wide_urls_split by (metis in_set_conv_decomp)
  have nv: "''http://h/gc'' \<notin> visited_urls wide_after1"
    using wide_batch2 by (metis list.set_intros(1) set_urls_at_depth DiffD2)
  have b: "begin_all wide_world wide_after1 [''http://h/gc''] 2
     = Inr (wide_after1\<lparr>visited_urls := visited_urls wide_after1 \<union> set [''http://h/gc''],
                fetched := fetched wide_after1 @ map (\<lambda>u. (u, 2)) [''http://h/gc'']\<rparr>,
            zip [''http://h/gc''] [length (fetched wide_after1)..<
               length (fetched wide_after1) + length [''http://h/gc'']])"
  proof (rule begin_all_fresh)
    fix u and s' :: scraper
    assume "u \<in> set [''http://h/gc'']" "parsed_base_netloc s' = parsed_base_netloc wide_after1"
    then show "should_download wide_world s' u = Inr (u \<notin> visited_urls s')"
      using in_urls wide_should_download[of u s' wide_world]
      by (auto simp add: wide_after1_def wide_after0_def)
  next
    show "set [''http://h/gc''] \<inter> visited_urls wide_after1 = {}" using nv by simp
    show "2 \<le> max_depth wide_after1" by (simp add: wide_after1_def wide_after0_def)
  qed simp
  have f: "finish_all wide_world s [(''http://h/gc'', n)] 2 = s" for s n
    by (rule finish_all_failed) (simp add: wide_timeout[OF in_urls])
  show ?thesis
    unfolding process_depth_def wide_batch2
    using b f by (simp add: wide_completion wide_final_def)
qed

lemma wide_run: "scrape_recursive wide_world (wide_start 2) = Inr wide_final"
proof -
  have d: "[0..<nat (max_depth (wide_start 2) + 1)] = [0, 1, 2]"
    by (simp add: wide_start_def upt_rec)
  have s: "(wide_start 2)\<lparr>discovered_urls :=
             (if base_url (wide_start 2) \<in> set (discovered_urls (wide_start 2))
              then discovered_urls (wide_start 2)
              else discovered_urls (wide_start 2) @ [base_url (wide_start 2)])\<rparr>
         = (wide_start 2)\<lparr>discovered_urls := [''http://h'']\<rparr>"
    by (simp add: wide_start_def)
  have u0: "urls_at_depth wide_world ((wide_start 2)\<lparr>discovered_urls := [''http://h'']\<rparr>) 0
      \<noteq> []"
    unfolding urls_at_depth_def wide_rank by (simp add: wide_start_def)
  have u1: "urls_at_depth wide_world wide_after0 1 \<noteq> []"
    using wide_batch1 wide_urls_length by auto
  show ?thesis
    unfolding scrape_recursive_def d s
    using u0 u1 wide_depth1 wide_depth2 wide_batch2 by (simp add: wide_depth0)
qed

lemma wide_init: "init_scraper wide_world ''http://h'' 2 = Inr (wide_start 2)"
  by (simp add: init_scraper_def rstrip_def urlparse_seed wide_start_def)

end
